theory Spec2Isabelle
  imports Main "HOL-Library.Word"
begin

section \<open>JavaScript values used by the web search tool\<close>

text \<open>
  A JavaScript string is a sequence of UTF-16 code units and \<open>length\<close> counts code
  units, so a string is a list of 16-bit words. \<open>js\<close> turns an ASCII literal into
  such a string.
\<close>

type_synonym jschar = "16 word"
type_synonym jsstring = "jschar list"

definition js :: "string \<Rightarrow> jsstring" where
  "js s = map of_char s"

text \<open>
  The result of \<open>parseInt\<close> is \<open>NaN\<close> or an integer-valued number. Only the
  operations the tool applies to such numbers are modelled: subtraction, addition,
  \<open><\<close> and \<open>Math.min\<close>, each with the \<open>NaN\<close> rule of the language
  (arithmetic with \<open>NaN\<close> is \<open>NaN\<close>, every comparison with \<open>NaN\<close> is
  false). The integers are unbounded: the tool adds such a number to an array index and
  subtracts it from an array length, which a double does exactly as long as the
  magnitude of the number is at most \<open>2 ^ 52\<close>; what rounding does to larger
  magnitudes is not modelled.
\<close>

datatype jsnum = NaN | Num int

fun js_minus :: "jsnum \<Rightarrow> jsnum \<Rightarrow> jsnum" where
  "js_minus (Num a) (Num b) = Num (a - b)"
| "js_minus _ _ = NaN"

fun js_plus :: "jsnum \<Rightarrow> jsnum \<Rightarrow> jsnum" where
  "js_plus (Num a) (Num b) = Num (a + b)"
| "js_plus _ _ = NaN"

fun js_less :: "jsnum \<Rightarrow> jsnum \<Rightarrow> bool" where
  "js_less (Num a) (Num b) = (a < b)"
| "js_less _ _ = False"

text \<open>\<open>Math.min(a, b)\<close>: \<open>NaN\<close> when either argument is.\<close>

fun js_min :: "jsnum \<Rightarrow> jsnum \<Rightarrow> jsnum" where
  "js_min (Num a) (Num b) = Num (min a b)"
| "js_min _ _ = NaN"

subsection \<open>Library functions on strings and arrays\<close>

text \<open>
  The characters matched by \<open>\s\<close> in a regular expression: the white space and
  line terminator code points of the language.
\<close>

definition is_space :: "jschar \<Rightarrow> bool" where
  "is_space c \<longleftrightarrow>
     c = 0x09 \<or> c = 0x0A \<or> c = 0x0B \<or> c = 0x0C \<or> c = 0x0D \<or> c = 0x20 \<or>
     c = 0xA0 \<or> c = 0x1680 \<or> (0x2000 \<le> c \<and> c \<le> 0x200A) \<or>
     c = 0x2028 \<or> c = 0x2029 \<or> c = 0x202F \<or> c = 0x205F \<or> c = 0x3000 \<or>
     c = 0xFEFF"

text \<open>
  \<open>s.split(/\s+/)\<close>: the string is cut at every maximal run of white space. A run
  at the start or at the end of the string leaves an empty first or last token, and the
  empty string gives the single token \<open>""\<close>.
\<close>

function split_ws :: "jsstring \<Rightarrow> jsstring list" where
  "split_ws s =
     (let tok = takeWhile (\<lambda>c. \<not> is_space c) s;
          rest = dropWhile (\<lambda>c. \<not> is_space c) s
      in if rest = [] then [tok] else tok # split_ws (dropWhile is_space rest))"
  by pat_completeness auto
termination
proof (relation "measure length")
  show "wf (measure length)" by simp
next
  fix s :: jsstring and tok rest
  assume rest: "rest = dropWhile (\<lambda>c. \<not> is_space c) s" and ne: "rest \<noteq> []"
  from ne obtain c cs where cs: "rest = c # cs" by (cases rest) auto
  have "dropWhile (\<lambda>c. \<not> is_space c) s \<noteq> []"
    using rest ne by simp
  then have "\<not> \<not> is_space (hd (dropWhile (\<lambda>c. \<not> is_space c) s))"
    by (rule hd_dropWhile)
  then have "is_space (hd rest)"
    unfolding rest by simp
  then have "is_space c"
    unfolding cs by simp
  then have "dropWhile is_space rest = dropWhile is_space cs"
    by (simp add: cs)
  then have "length (dropWhile is_space rest) \<le> length cs"
    by (simp add: length_dropWhile_le)
  also have "length cs < length rest" by (simp add: cs)
  also have "length rest \<le> length s" by (simp add: rest length_dropWhile_le)
  finally show "(dropWhile is_space rest, s) \<in> measure length" by simp
qed

declare split_ws.simps [simp del]

text \<open>\<open>xs.join(sep)\<close> for an array of strings.\<close>

fun js_join :: "jsstring \<Rightarrow> jsstring list \<Rightarrow> jsstring" where
  "js_join sep [] = []"
| "js_join sep [x] = x"
| "js_join sep (x # y # ys) = x @ sep @ js_join sep (y # ys)"

text \<open>
  \<open>xs.slice(start, end)\<close>: a negative index counts from the end of the array, both
  indices are clamped to the array, \<open>NaN\<close> is read as 0, and the result is empty
  when the end is not after the start.
\<close>

definition slice_index :: "nat \<Rightarrow> jsnum \<Rightarrow> int" where
  "slice_index len n =
     (case n of
        NaN \<Rightarrow> 0
      | Num k \<Rightarrow> if k < 0 then max (int len + k) 0 else min k (int len))"

definition js_slice :: "'a list \<Rightarrow> jsnum \<Rightarrow> jsnum \<Rightarrow> 'a list" where
  "js_slice xs start fin =
     (let k = slice_index (length xs) start;
          final = slice_index (length xs) fin
      in take (nat (final - k)) (drop (nat k) xs))"

text \<open>
  A \<open>Set\<close> of strings keeps its elements in insertion order; \<open>add\<close> of an element
  already present changes nothing. The set is the list of its elements in that order.
\<close>

definition set_add :: "'a list \<Rightarrow> 'a \<Rightarrow> 'a list" where
  "set_add s x = (if x \<in> set s then s else s @ [x])"

section \<open>Search results\<close>

text \<open>
  \<open>interface WebSearchResult\<close>: an optional field that is absent is \<open>None\<close>.
\<close>

record WebSearchResult =
  title :: jsstring
  url :: jsstring
  snippet :: jsstring
  content :: "jsstring option"
  codeSnippets :: "jsstring list option"
  headings :: "jsstring list option"

section \<open>Key phrases\<close>

text \<open>
  The inner loop of \<open>extractKeyPhrases\<close>:
  \<^verbatim>\<open>for (let i = 0; i < words.length - windowSize; i++) {
    const phrase = words.slice(i, i + windowSize).join(" ")
    if (phrase.length > 30 && phrase.length < 150) phrases.add(phrase)
  }\<close>
\<close>

definition keep_phrase :: "jsstring list \<Rightarrow> jsstring \<Rightarrow> jsstring list" where
  "keep_phrase phrases phrase =
     (if length phrase > 30 \<and> length phrase < 150 then set_add phrases phrase else phrases)"

definition window :: "jsstring list \<Rightarrow> jsnum \<Rightarrow> int \<Rightarrow> jsstring" where
  "window words windowSize i =
     js_join (js '' '') (js_slice words (Num i) (js_plus (Num i) windowSize))"

function window_loop :: "jsstring list \<Rightarrow> jsnum \<Rightarrow> int \<Rightarrow> jsstring list \<Rightarrow> jsstring list" where
  "window_loop words windowSize i phrases =
     (if js_less (Num i) (js_minus (Num (int (length words))) windowSize)
      then window_loop words windowSize (i + 1) (keep_phrase phrases (window words windowSize i))
      else phrases)"
  by pat_completeness auto
termination
  by (relation "measure (\<lambda>(words, windowSize, i, phrases).
        case windowSize of NaN \<Rightarrow> 0 | Num w \<Rightarrow> nat (int (length words) - w - i))")
     (auto split: jsnum.splits)

declare window_loop.simps [simp del]

text \<open>
  The outer loop, over the results; a result whose content is absent or empty is passed
  over (\<open>if (!result.content) continue\<close>).
\<close>

fun results_loop :: "WebSearchResult list \<Rightarrow> jsnum \<Rightarrow> jsstring list \<Rightarrow> jsstring list" where
  "results_loop [] windowSize phrases = phrases"
| "results_loop (r # rs) windowSize phrases =
     (case content r of
        None \<Rightarrow> results_loop rs windowSize phrases
      | Some c \<Rightarrow>
          if c = [] then results_loop rs windowSize phrases
          else results_loop rs windowSize (window_loop (split_ws c) windowSize 0 phrases))"

text \<open>\<open>return Array.from(phrases).slice(0, 5)\<close>\<close>

definition extractKeyPhrases :: "WebSearchResult list \<Rightarrow> jsnum \<Rightarrow> jsstring list" where
  "extractKeyPhrases results windowSize =
     js_slice (results_loop results windowSize []) (Num 0) (Num 5)"

section \<open>Summary\<close>

definition has_headings :: "WebSearchResult \<Rightarrow> bool" where
  "has_headings r = (case headings r of None \<Rightarrow> False | Some hs \<Rightarrow> length hs > 0)"

definition no_summary :: jsstring where
  "no_summary = js ''No structured summary available''"

definition generateSearchSummary :: "WebSearchResult list \<Rightarrow> jsstring" where
  "generateSearchSummary results =
     (let summary =
        js_join [0x0A]
          (map (\<lambda>r. js_join (js '' > '') (the (headings r))) (filter has_headings results))
      in if summary = [] then no_summary else summary)"

section \<open>Processed results, their JSON document and the report\<close>

text \<open>\<open>interface ProcessedResults\<close>\<close>

record ProcessedResults =
  query :: jsstring
  domain :: "jsstring option"
  results :: "WebSearchResult list"
  keyPhrases :: "jsstring list"
  searchSummary :: jsstring
  timestamp :: jsstring

text \<open>
  The values handed to \<open>JSON.stringify\<close>. An object is the list of its own
  properties in creation order; a property can hold \<open>undefined\<close>, which is not the
  same object as one without the property.
\<close>

datatype jsval =
    Undefined
  | Null
  | Str jsstring
  | Number jsnum
  | Arr "jsval list"
  | Obj "(string \<times> jsval) list"

text \<open>
  A JSON document, as a tree. The text that \<open>JSON.stringify(v, null, 2)\<close> prints for
  the tree and that \<open>JSON.parse\<close> reads back is the runtime's and is not modelled;
  what \<open>stringify\<close> does to a value is: a property holding \<open>undefined\<close> is left
  out, \<open>undefined\<close> in an array and \<open>NaN\<close> are written \<open>null\<close>, and
  \<open>undefined\<close> itself has no document.
\<close>

datatype json =
    JNull
  | JStr jsstring
  | JNum int
  | JArr "json list"
  | JObj "(string \<times> json) list"

fun stringify :: "jsval \<Rightarrow> json option"
  and stringify_elements :: "jsval list \<Rightarrow> json list"
  and stringify_properties :: "(string \<times> jsval) list \<Rightarrow> (string \<times> json) list" where
  "stringify Undefined = None"
| "stringify Null = Some JNull"
| "stringify (Str s) = Some (JStr s)"
| "stringify (Number NaN) = Some JNull"
| "stringify (Number (Num n)) = Some (JNum n)"
| "stringify (Arr vs) = Some (JArr (stringify_elements vs))"
| "stringify (Obj kvs) = Some (JObj (stringify_properties kvs))"
| "stringify_elements [] = []"
| "stringify_elements (v # vs) =
     (case stringify v of None \<Rightarrow> JNull | Some j \<Rightarrow> j) # stringify_elements vs"
| "stringify_properties [] = []"
| "stringify_properties ((k, v) # kvs) =
     (case stringify v of
        None \<Rightarrow> stringify_properties kvs
      | Some j \<Rightarrow> (k, j) # stringify_properties kvs)"

fun parse :: "json \<Rightarrow> jsval"
  and parse_elements :: "json list \<Rightarrow> jsval list"
  and parse_properties :: "(string \<times> json) list \<Rightarrow> (string \<times> jsval) list" where
  "parse JNull = Null"
| "parse (JStr s) = Str s"
| "parse (JNum n) = Number (Num n)"
| "parse (JArr ds) = Arr (parse_elements ds)"
| "parse (JObj kds) = Obj (parse_properties kds)"
| "parse_elements [] = []"
| "parse_elements (d # ds) = parse d # parse_elements ds"
| "parse_properties [] = []"
| "parse_properties ((k, d) # kds) = (k, parse d) # parse_properties kds"

text \<open>
  The objects the tool builds. A result pushed after a failed visit has the three
  listing properties only; one pushed after a visit has all six. The processed results
  are built by the literal \<open>{ query, domain, results, keyPhrases, searchSummary,
  timestamp }\<close>, so the property \<open>domain\<close> is always there and holds
  \<open>undefined\<close> when no domain was given.
\<close>

definition optional_property :: "string \<Rightarrow> jsval option \<Rightarrow> (string \<times> jsval) list" where
  "optional_property k v = (case v of None \<Rightarrow> [] | Some x \<Rightarrow> [(k, x)])"

definition strings_value :: "jsstring list \<Rightarrow> jsval" where
  "strings_value xs = Arr (map Str xs)"

definition result_value :: "WebSearchResult \<Rightarrow> jsval" where
  "result_value r =
     Obj ([(''title'', Str (title r)), (''url'', Str (url r)), (''snippet'', Str (snippet r))]
          @ optional_property ''content'' (map_option Str (content r))
          @ optional_property ''codeSnippets'' (map_option strings_value (codeSnippets r))
          @ optional_property ''headings'' (map_option strings_value (headings r)))"

definition processed_value :: "ProcessedResults \<Rightarrow> jsval" where
  "processed_value p =
     Obj [(''query'', Str (query p)),
          (''domain'', (case domain p of None \<Rightarrow> Undefined | Some d \<Rightarrow> Str d)),
          (''results'', Arr (map result_value (results p))),
          (''keyPhrases'', strings_value (keyPhrases p)),
          (''searchSummary'', Str (searchSummary p)),
          (''timestamp'', Str (timestamp p))]"

text \<open>A value without its properties that hold \<open>undefined\<close>.\<close>

definition defined_properties :: "jsval \<Rightarrow> jsval" where
  "defined_properties v =
     (case v of Obj kvs \<Rightarrow> Obj (filter (\<lambda>kv. snd kv \<noteq> Undefined) kvs) | _ \<Rightarrow> v)"

text \<open>The decimal numeral of a length, as a template literal prints it.\<close>

function show_nat :: "nat \<Rightarrow> jsstring" where
  "show_nat n =
     (if n < 10 then [of_nat (48 + n)] else show_nat (n div 10) @ [of_nat (48 + n mod 10)])"
  by pat_completeness auto
termination
  by (relation "measure id") auto

declare show_nat.simps [simp del]

definition nl :: jsstring where
  "nl = [0x0A]"

text \<open>A string or array is truthy when it is there and not empty.\<close>

definition truthy :: "'a list option \<Rightarrow> bool" where
  "truthy s = (case s of None \<Rightarrow> False | Some t \<Rightarrow> t \<noteq> [])"

definition format_result :: "WebSearchResult \<Rightarrow> jsstring" where
  "format_result r =
     js ''- '' @ title r @ nl @
     js ''  '' @ url r @ nl @
     js ''  '' @ snippet r @ nl @
     js ''  '' @
       (if truthy (codeSnippets r)
        then nl @ js ''Code Snippets: '' @ show_nat (length (the (codeSnippets r))) @ js '' found''
        else []) @ nl @
     js ''  '' @
       (if truthy (headings r)
        then nl @ js ''Headings: '' @ js_join (js '' > '') (the (headings r))
        else [])"

definition formatSearchResults :: "ProcessedResults \<Rightarrow> jsstring \<Rightarrow> jsstring" where
  "formatSearchResults p storagePath =
     js ''Web Search Results for: '' @ [0x22] @ query p @ [0x22] @ nl @
     (if truthy (domain p) then js ''Domain: '' @ the (domain p) @ nl else []) @ nl @
     js ''Results stored in: '' @ storagePath @ nl @ nl @
     js ''Search Summary:'' @ nl @ searchSummary p @ nl @ nl @
     js ''Key Phrases:'' @ nl @ js_join nl (keyPhrases p) @ nl @ nl @
     js ''Results:'' @ nl @ js_join (nl @ nl) (map format_result (results p))"

section \<open>The orchestrator\<close>

subsection \<open>What the tool is given and what it meets\<close>

text \<open>\<open>block.params\<close>: each parameter is a string or absent.\<close>

record tool_params =
  params_query :: "jsstring option"
  params_domain :: "jsstring option"
  max_results :: "jsstring option"
  sliding_window_size :: "jsstring option"
  chunk_dir :: "jsstring option"

text \<open>
  \<open>interface WebElement\<close>: what \<open>page.evaluate\<close> reads from an element handle
  of the listing.
\<close>

datatype WebElement = WebElement (textContent: "jsstring option") (href: jsstring)

text \<open>
  The parts of a visited page the three \<open>contentPage.evaluate\<close> calls look at: the
  text of the first element matching \<open>main, article, .content, #content\<close> if there
  is one, the text of the body, and the texts of the \<open>pre, code\<close> and of the
  \<open>h1, h2, h3\<close> elements in document order.
\<close>

record document =
  main_text :: "jsstring option"
  body_text :: jsstring
  code_texts :: "jsstring list"
  heading_texts :: "jsstring list"

text \<open>
  How the visit of a result's page goes: \<open>browser.newPage\<close> rejects;
  \<open>contentPage.goto\<close> rejects (a timeout, a navigation error); one of the
  \<open>evaluate\<close> calls rejects; or the page is read, and \<open>contentPage.close\<close>
  then succeeds or rejects.
\<close>

datatype detail = NewPageFails | GotoFails | EvaluateFails | Loaded document bool

text \<open>
  An entry \<open>li.b_algo\<close> of the listing: the handles \<open>h2 a\<close> and
  \<open>.b_caption p\<close> found in it (or \<open>null\<close>), and how the visit of its page goes.
  \<open>Detached\<close> is an entry on which a query or an evaluation rejects.
\<close>

datatype listing_entry =
    Detached
  | Entry (titleElement: "WebElement option") (snippetElement: "WebElement option") (detail: detail)

datatype search =
    SearchNewPageFails
  | InterceptionFails
  | SearchGotoFails
  | SelectorFails
  | Listing "listing_entry list"

text \<open>
  Everything outside the tool: the callbacks and library functions it is given, and the
  outcome of each awaited operation that can reject: \<open>fs.mkdir\<close>, the approval,
  the launch of the browser (\<open>PCR\<close> and \<open>puppeteer.launch\<close>), the search page
  and its listing, the time, and \<open>fs.writeFile\<close>. The callbacks
  \<open>askApproval\<close>, \<open>pushToolResult\<close> and \<open>handleError\<close>, and
  \<open>browser.close\<close> in the \<open>finally\<close>, are taken to return. \<open>translate\<close>
  is \<open>t\<close> of the i18n module, \<open>now\<close> is \<open>new Date().toISOString()\<close>.
\<close>

record env =
  removeClosingTag :: "string \<Rightarrow> jsstring option \<Rightarrow> jsstring"
  parseInt :: "jsstring \<Rightarrow> jsnum"
  translate :: "string \<Rightarrow> (string \<times> jsstring) list \<Rightarrow> jsstring"
  path_resolve :: "jsstring \<Rightarrow> jsstring \<Rightarrow> jsstring"
  path_join :: "jsstring \<Rightarrow> jsstring \<Rightarrow> jsstring"
  encodeURIComponent :: "jsstring \<Rightarrow> jsstring"
  cwd :: jsstring
  mkdir_ok :: bool
  approve :: bool
  launch_ok :: bool
  search :: search
  now :: jsstring
  write_ok :: bool

text \<open>
  What the tool does to the world, in order. An event is recorded when the operation
  has taken effect: the output directory made (\<open>fs.mkdir\<close> with
  \<open>recursive: true\<close> has returned: the directory is there, made now if it was
  not), a browser launched, a page opened or closed, a file written. \<open>Navigate\<close>
  is recorded when \<open>goto\<close> is called, whether or not the page loads.
\<close>

datatype page = SearchPage | ContentPage nat

datatype event =
    MissingParamError
  | Mkdir jsstring
  | AskApproval "json option"
  | LaunchBrowser
  | OpenPage page
  | Navigate page jsstring
  | ClosePage page
  | LogError jsstring
  | WriteFile jsstring json
  | PushToolResult jsstring
  | HandleError jsstring
  | CloseBrowser

datatype outcome =
    MissingQuery
  | Declined
  | Failed
  | Completed ProcessedResults jsstring jsstring

subsection \<open>One entry of the listing\<close>

text \<open>\<open>el.textContent || ""\<close>\<close>

definition text_or_empty :: "jsstring option \<Rightarrow> jsstring" where
  "text_or_empty s = (case s of None \<Rightarrow> [] | Some x \<Rightarrow> x)"

definition partial_result :: "jsstring \<Rightarrow> jsstring \<Rightarrow> jsstring \<Rightarrow> WebSearchResult" where
  "partial_result ti u sn =
     \<lparr>title = ti, url = u, snippet = sn, content = None, codeSnippets = None, headings = None\<rparr>"

definition full_result :: "jsstring \<Rightarrow> jsstring \<Rightarrow> jsstring \<Rightarrow> document \<Rightarrow> WebSearchResult" where
  "full_result ti u sn doc =
     \<lparr>title = ti, url = u, snippet = sn,
      content = Some (case main_text doc of Some m \<Rightarrow> m | None \<Rightarrow> body_text doc),
      codeSnippets = Some (filter (\<lambda>x. x \<noteq> []) (code_texts doc)),
      headings = Some (filter (\<lambda>x. x \<noteq> []) (heading_texts doc))\<rparr>"

text \<open>
  The \<open>try\<close> block around the visit of entry \<open>i\<close> and its \<open>catch\<close>: the results
  pushed and the events, in order. The full result is pushed before
  \<open>contentPage.close()\<close> is awaited, and the \<open>catch\<close> pushes the three-field
  result after any rejection inside the block.
\<close>

fun visit :: "nat \<Rightarrow> jsstring \<Rightarrow> jsstring \<Rightarrow> jsstring \<Rightarrow> detail \<Rightarrow> WebSearchResult list \<times> event list" where
  "visit i ti u sn NewPageFails = ([partial_result ti u sn], [LogError u])"
| "visit i ti u sn GotoFails =
     ([partial_result ti u sn],
      [OpenPage (ContentPage i), Navigate (ContentPage i) u, LogError u])"
| "visit i ti u sn EvaluateFails =
     ([partial_result ti u sn],
      [OpenPage (ContentPage i), Navigate (ContentPage i) u, LogError u])"
| "visit i ti u sn (Loaded doc close_ok) =
     (if close_ok
      then ([full_result ti u sn doc],
            [OpenPage (ContentPage i), Navigate (ContentPage i) u, ClosePage (ContentPage i)])
      else ([full_result ti u sn doc, partial_result ti u sn],
            [OpenPage (ContentPage i), Navigate (ContentPage i) u, LogError u]))"

text \<open>
  The body of the listing loop for entry \<open>i\<close>; \<open>None\<close> when a rejection leaves
  the loop for the outer \<open>catch\<close>.
\<close>

fun entry_step :: "nat \<Rightarrow> listing_entry \<Rightarrow> (WebSearchResult list \<times> event list) option" where
  "entry_step i Detached = None"
| "entry_step i (Entry (Some te) (Some se) d) =
     Some (visit i (text_or_empty (textContent te)) (href te) (text_or_empty (textContent se)) d)"
| "entry_step i (Entry _ _ d) = Some ([], [])"

text \<open>
  \<^verbatim>\<open>for (let i = 0; i < Math.min(searchResults.length, maxResults); i++)\<close>
\<close>

function listing_loop ::
  "listing_entry list \<Rightarrow> jsnum \<Rightarrow> nat \<Rightarrow> WebSearchResult list \<times> event list
     \<Rightarrow> event list + WebSearchResult list \<times> event list" where
  "listing_loop searchResults maxResults i (rs, tr) =
     (if js_less (Num (int i)) (js_min (Num (int (length searchResults))) maxResults)
      then (case entry_step i (searchResults ! i) of
              None \<Rightarrow> Inl tr
            | Some (pushed, evs) \<Rightarrow>
                listing_loop searchResults maxResults (Suc i) (rs @ pushed, tr @ evs))
      else Inr (rs, tr))"
  by pat_completeness auto
termination
proof (relation "measure (\<lambda>(searchResults, maxResults, i, st). length searchResults - i)")
  show "wf (measure (\<lambda>(searchResults, maxResults, i, st). length searchResults - i))"
    by simp
next
  fix searchResults :: "listing_entry list" and maxResults i
    and rs :: "WebSearchResult list" and tr :: "event list" and x2 pushed evs
  assume "js_less (Num (int i)) (js_min (Num (int (length searchResults))) maxResults)"
  then have "i < length searchResults"
    by (cases maxResults) auto
  then show "((searchResults, maxResults, Suc i, rs @ pushed, tr @ evs),
              (searchResults, maxResults, i, rs, tr))
             \<in> measure (\<lambda>(searchResults, maxResults, i, st). length searchResults - i)"
    by simp
qed

declare listing_loop.simps [simp del]

subsection \<open>The tool\<close>

text \<open>The outer \<open>catch\<close> and \<open>finally\<close>.\<close>

definition failed :: "bool \<Rightarrow> event list \<Rightarrow> outcome \<times> event list" where
  "failed browser tr =
     (Failed, tr @ [HandleError (js ''performing web search'')]
                 @ (if browser then [CloseBrowser] else []))"

definition processedResults_of ::
  "env \<Rightarrow> jsstring \<Rightarrow> jsstring option \<Rightarrow> jsnum \<Rightarrow> WebSearchResult list \<Rightarrow> ProcessedResults" where
  "processedResults_of e q d slidingWindowSize rs =
     \<lparr>query = q, domain = d, results = rs,
      keyPhrases = extractKeyPhrases rs slidingWindowSize,
      searchSummary = generateSearchSummary rs,
      timestamp = now e\<rparr>"

definition resultsPath_of :: "env \<Rightarrow> jsstring \<Rightarrow> jsstring" where
  "resultsPath_of e resultsDir = path_join e resultsDir (js ''search-'' @ now e @ js ''.json'')"

text \<open>
  Lines 197 to 214: the processed results are assembled, written as JSON and the
  report is pushed; then the \<open>finally\<close> closes the browser.
\<close>

definition finish ::
  "env \<Rightarrow> jsstring \<Rightarrow> jsstring option \<Rightarrow> jsnum \<Rightarrow> jsstring \<Rightarrow> WebSearchResult list \<Rightarrow> event list
     \<Rightarrow> outcome \<times> event list" where
  "finish e q d slidingWindowSize resultsDir rs tr =
     (let processedResults = processedResults_of e q d slidingWindowSize rs;
          resultsPath = resultsPath_of e resultsDir
      in case stringify (processed_value processedResults) of
           None \<Rightarrow> failed True tr
         | Some doc \<Rightarrow>
             if write_ok e
             then let output = formatSearchResults processedResults resultsPath
                  in (Completed processedResults resultsPath output,
                      tr @ [WriteFile resultsPath doc, PushToolResult output, CloseBrowser])
             else failed True tr)"

definition searchUrl_of :: "env \<Rightarrow> jsstring \<Rightarrow> jsstring option \<Rightarrow> jsstring" where
  "searchUrl_of e q d =
     (if truthy d
      then js ''https://www.bing.com/search?q=site:'' @ the d @ js ''+'' @ encodeURIComponent e q
      else js ''https://www.bing.com/search?q='' @ encodeURIComponent e q)"

text \<open>
  Lines 112 to 195: the browser is launched, the search page opened and loaded, and the
  listing is gone through. From the launch on, every way out closes the browser.
\<close>

definition browse ::
  "env \<Rightarrow> jsstring \<Rightarrow> jsstring option \<Rightarrow> jsnum \<Rightarrow> jsnum \<Rightarrow> jsstring \<Rightarrow> event list
     \<Rightarrow> outcome \<times> event list" where
  "browse e q d maxResults slidingWindowSize resultsDir tr =
     (if \<not> launch_ok e then failed False tr
      else
        let opened = tr @ [LaunchBrowser, OpenPage SearchPage];
            loaded = opened @ [Navigate SearchPage (searchUrl_of e q d)]
        in case search e of
             SearchNewPageFails \<Rightarrow> failed True (tr @ [LaunchBrowser])
           | InterceptionFails \<Rightarrow> failed True opened
           | SearchGotoFails \<Rightarrow> failed True loaded
           | SelectorFails \<Rightarrow> failed True loaded
           | Listing searchResults \<Rightarrow>
               (case listing_loop searchResults maxResults 0 ([], loaded) of
                  Inl tr' \<Rightarrow> failed True tr'
                | Inr (rs, tr') \<Rightarrow> finish e q d slidingWindowSize resultsDir rs tr'))"

text \<open>Lines 71 to 77: the parameters and their defaults.\<close>

definition param_query :: "env \<Rightarrow> tool_params \<Rightarrow> jsstring" where
  "param_query e ps = removeClosingTag e ''query'' (params_query ps)"

definition param_domain :: "env \<Rightarrow> tool_params \<Rightarrow> jsstring option" where
  "param_domain e ps =
     (if truthy (params_domain ps) then Some (removeClosingTag e ''domain'' (params_domain ps))
      else None)"

definition param_maxResults :: "env \<Rightarrow> tool_params \<Rightarrow> jsnum" where
  "param_maxResults e ps =
     (if truthy (max_results ps)
      then parseInt e (removeClosingTag e ''max_results'' (max_results ps))
      else Num 5)"

definition param_slidingWindowSize :: "env \<Rightarrow> tool_params \<Rightarrow> jsnum" where
  "param_slidingWindowSize e ps =
     (if truthy (sliding_window_size ps)
      then parseInt e (removeClosingTag e ''sliding_window_size'' (sliding_window_size ps))
      else Num 100)"

definition param_chunkDir :: "env \<Rightarrow> tool_params \<Rightarrow> jsstring" where
  "param_chunkDir e ps =
     (if truthy (chunk_dir ps) then removeClosingTag e ''chunk_dir'' (chunk_dir ps)
      else js ''./web-search-results'')"

definition resultsDir_of :: "env \<Rightarrow> tool_params \<Rightarrow> jsstring" where
  "resultsDir_of e ps = path_resolve e (cwd e) (param_chunkDir e ps)"

text \<open>The message shown for approval, \<open>JSON.stringify(messageContent)\<close>.\<close>

definition completeMessage :: "env \<Rightarrow> tool_params \<Rightarrow> json option" where
  "completeMessage e ps =
     (let q = param_query e ps; d = param_domain e ps;
          searchDescription =
            (if truthy d
             then translate e ''tools:webSearch.withDomain'' [(''query'', q), (''domain'', the d)]
             else translate e ''tools:webSearch.withoutDomain'' [(''query'', q)])
      in stringify
           (Obj [(''tool'', Str (js ''webSearch'')),
                 (''description'', Str searchDescription),
                 (''path'', Str (resultsDir_of e ps)),
                 (''query'', Str q),
                 (''domain'', (case d of None \<Rightarrow> Undefined | Some x \<Rightarrow> Str x)),
                 (''maxResults'', Number (param_maxResults e ps))]))"

definition webSearchTool :: "env \<Rightarrow> tool_params \<Rightarrow> outcome \<times> event list" where
  "webSearchTool e ps =
     (if param_query e ps = [] then (MissingQuery, [MissingParamError])
      else if \<not> mkdir_ok e then failed False []
      else if \<not> approve e
        then (Declined, [Mkdir (resultsDir_of e ps), AskApproval (completeMessage e ps)])
      else browse e (param_query e ps) (param_domain e ps) (param_maxResults e ps)
             (param_slidingWindowSize e ps) (resultsDir_of e ps)
             [Mkdir (resultsDir_of e ps), AskApproval (completeMessage e ps)])"

section \<open>Notions used to state the properties\<close>

subsection \<open>Key phrases\<close>

text \<open>
  The windows the inner loop joins for one token sequence, in the order of the loop
  index: the loop runs from 0 while \<open>i < words.length - windowSize\<close>.
\<close>

definition examined :: "jsstring list \<Rightarrow> jsnum \<Rightarrow> jsstring list" where
  "examined words windowSize =
     (case windowSize of
        NaN \<Rightarrow> []
      | Num w \<Rightarrow> map (window words windowSize) [0..int (length words) - w - 1])"

text \<open>The windows joined for one result; none when its content is absent or empty.\<close>

definition result_windows :: "jsnum \<Rightarrow> WebSearchResult \<Rightarrow> jsstring list" where
  "result_windows windowSize r =
     (case content r of
        None \<Rightarrow> []
      | Some c \<Rightarrow> if c = [] then [] else examined (split_ws c) windowSize)"

definition in_range :: "jsstring \<Rightarrow> bool" where
  "in_range p \<longleftrightarrow> 30 < length p \<and> length p < 150"

text \<open>A list without its repetitions, every element at its first occurrence.\<close>

definition first_occurrences :: "'a list \<Rightarrow> 'a list" where
  "first_occurrences xs = rev (remdups (rev xs))"

text \<open>
  The specification's windows, to compare the loop with: the contiguous runs of \<open>n\<close>
  tokens at every start position of the token sequence.
\<close>

definition spec_windows :: "nat \<Rightarrow> 'a list \<Rightarrow> 'a list list" where
  "spec_windows n xs = [take n (drop i xs). i \<leftarrow> [0..<length xs], i + n \<le> length xs]"

subsection \<open>Summary\<close>

text \<open>The lines of the summary: one per result that has headings.\<close>

definition heading_lines :: "WebSearchResult list \<Rightarrow> jsstring list" where
  "heading_lines rs = map (\<lambda>r. js_join (js '' > '') (the (headings r))) (filter has_headings rs)"

subsection \<open>The listing\<close>

text \<open>
  The entries the listing loop looks at: the first \<open>maxResults\<close> of the listing,
  none when \<open>maxResults\<close> is \<open>NaN\<close> or not positive.
\<close>

definition examined_entries :: "listing_entry list \<Rightarrow> jsnum \<Rightarrow> listing_entry list" where
  "examined_entries searchResults maxResults =
     (case maxResults of NaN \<Rightarrow> [] | Num m \<Rightarrow> take (nat m) searchResults)"

text \<open>The results and the events of one entry, none for an entry that ends the loop.\<close>

definition pushed :: "listing_entry \<Rightarrow> WebSearchResult list" where
  "pushed entry = (case entry_step 0 entry of None \<Rightarrow> [] | Some (rs, evs) \<Rightarrow> rs)"

definition entry_events :: "nat \<Rightarrow> listing_entry \<Rightarrow> event list" where
  "entry_events i entry = (case entry_step i entry of None \<Rightarrow> [] | Some (rs, evs) \<Rightarrow> evs)"

text \<open>An entry with both its title and its snippet element.\<close>

fun surviving :: "listing_entry \<Rightarrow> bool" where
  "surviving (Entry (Some te) (Some se) d) = True"
| "surviving _ = False"

text \<open>An entry whose page is read and then fails to close.\<close>

fun close_fails :: "listing_entry \<Rightarrow> bool" where
  "close_fails (Entry (Some te) (Some se) (Loaded doc close_ok)) = (\<not> close_ok)"
| "close_fails _ = False"

text \<open>A visit in which navigation or extraction fails.\<close>

fun visit_fails :: "detail \<Rightarrow> bool" where
  "visit_fails (Loaded doc close_ok) = False"
| "visit_fails _ = True"

subsection \<open>Runs\<close>

fun completed :: "outcome \<Rightarrow> bool" where
  "completed (Completed p resultsPath output) = True"
| "completed _ = False"

fun results_of :: "outcome \<Rightarrow> WebSearchResult list" where
  "results_of (Completed p resultsPath output) = results p"
| "results_of _ = []"

text \<open>The JSON document written for the processed results.\<close>

definition document_of :: "ProcessedResults \<Rightarrow> json" where
  "document_of p = (case stringify (processed_value p) of None \<Rightarrow> JNull | Some doc \<Rightarrow> doc)"

text \<open>The processed results of a run over the results \<open>rs\<close>, and what came before the listing loop.\<close>

definition processed_of :: "env \<Rightarrow> tool_params \<Rightarrow> WebSearchResult list \<Rightarrow> ProcessedResults" where
  "processed_of e ps rs =
     processedResults_of e (param_query e ps) (param_domain e ps) (param_slidingWindowSize e ps) rs"

definition events_before_listing :: "env \<Rightarrow> tool_params \<Rightarrow> event list" where
  "events_before_listing e ps =
     [Mkdir (resultsDir_of e ps), AskApproval (completeMessage e ps), LaunchBrowser,
      OpenPage SearchPage,
      Navigate SearchPage (searchUrl_of e (param_query e ps) (param_domain e ps))]"

section \<open>Example inputs\<close>

definition three_words :: jsstring where
  "three_words = js ''aaaaaaaaaaaaaaaaaaaa bbbbbbbbbbbbbbbbbbbb cccccccccccccccccccc''"

definition long_word_then_b :: jsstring where
  "long_word_then_b = js ''aaaaaaaaaaaaaaaaaaaaaaaaaaaaaaaaaaa b''"

definition page_result :: "jsstring \<Rightarrow> WebSearchResult" where
  "page_result c =
     \<lparr>title = js ''t'', url = js ''u'', snippet = js ''s'',
      content = Some c, codeSnippets = Some [], headings = Some []\<rparr>"

definition headed_result :: "jsstring list \<Rightarrow> WebSearchResult" where
  "headed_result hs =
     \<lparr>title = js ''t'', url = js ''u'', snippet = js ''s'',
      content = Some [], codeSnippets = Some [], headings = Some hs\<rparr>"

text \<open>
  An environment in which every step succeeds, over a given listing: the closing tag
  remover returns its text, \<open>parseInt\<close> knows the numerals \<open>1\<close> and \<open>2\<close>.
\<close>

definition example_env :: "listing_entry list \<Rightarrow> env" where
  "example_env searchResults =
     \<lparr>removeClosingTag = (\<lambda>tag s. text_or_empty s),
      parseInt = (\<lambda>s. if s = js ''1'' then Num 1 else if s = js ''2'' then Num 2 else NaN),
      translate = (\<lambda>key args. js ''search''),
      path_resolve = (\<lambda>a b. a @ js ''/'' @ b),
      path_join = (\<lambda>a b. a @ js ''/'' @ b),
      encodeURIComponent = (\<lambda>s. s),
      cwd = js ''/w'',
      mkdir_ok = True,
      approve = True,
      launch_ok = True,
      search = Listing searchResults,
      now = js ''T'',
      write_ok = True\<rparr>"

definition example_params :: "string \<Rightarrow> tool_params" where
  "example_params n =
     \<lparr>params_query = Some (js ''foo''), params_domain = None, max_results = Some (js n),
      sliding_window_size = None, chunk_dir = Some (js ''out'')\<rparr>"

definition example_document :: document where
  "example_document =
     \<lparr>main_text = None, body_text = js ''text'', code_texts = [], heading_texts = [js ''A'']\<rparr>"

definition link :: "string \<Rightarrow> string \<Rightarrow> WebElement" where
  "link text target = WebElement (Some (js text)) (js target)"

text \<open>A listing of three entries, the first without its title element.\<close>

definition skip_listing :: "listing_entry list" where
  "skip_listing =
     [Entry None (Some (link ''s0'' [])) (Loaded example_document True),
      Entry (Some (link ''t1'' ''u1'')) (Some (link ''s1'' [])) (Loaded example_document True),
      Entry (Some (link ''t2'' ''u2'')) (Some (link ''s2'' [])) (Loaded example_document True)]"

text \<open>A listing of one entry whose page does not load.\<close>

definition fail_listing :: "listing_entry list" where
  "fail_listing = [Entry (Some (link ''t'' ''u'')) (Some (link ''s'' [])) GotoFails]"

text \<open>
  A listing of one entry whose title element has the empty text and no \<open>href\<close>,
  and whose page is read and then fails to close.
\<close>

definition blank_listing :: "listing_entry list" where
  "blank_listing =
     [Entry (Some (WebElement (Some []) [])) (Some (link ''s'' [])) (Loaded example_document False)]"

section \<open>Properties of the result processor\<close>

subsection \<open>Facts about the library functions\<close>

lemma js_slice_take: "0 \<le> n \<Longrightarrow> js_slice xs (Num 0) (Num n) = take (nat n) xs"
  by (auto simp: js_slice_def slice_index_def min_def)

lemma js_slice_window:
  assumes "0 \<le> i" "0 \<le> w"
  shows "js_slice xs (Num i) (Num (i + w)) = take (nat w) (drop (nat i) xs)"
proof (cases "i \<le> int (length xs)")
  case True
  show ?thesis
  proof (cases "i + w \<le> int (length xs)")
    case True
    with assms \<open>i \<le> int (length xs)\<close> show ?thesis
      by (simp add: js_slice_def slice_index_def min_def)
  next
    case False
    with assms True have "nat (int (length xs) - i) = length xs - nat i" "length xs - nat i \<le> nat w"
      by linarith+
    with assms True False show ?thesis
      by (simp add: js_slice_def slice_index_def min_def)
  qed
next
  case False
  with assms show ?thesis
    by (simp add: js_slice_def slice_index_def min_def)
qed

lemma js_slice_empty:
  assumes "0 \<le> i" "w \<le> 0" "w = 0 \<or> int (length xs) + w \<le> 0"
  shows "js_slice xs (Num i) (Num (i + w)) = []"
  using assms by (auto simp: js_slice_def slice_index_def min_def max_def)

subsection \<open>The window loop\<close>

lemma window_loop_NaN: "window_loop words NaN i phrases = phrases"
  by (simp add: window_loop.simps)

lemma window_loop_fold:
  "window_loop words (Num w) i phrases =
     foldl keep_phrase phrases (map (window words (Num w)) [i..int (length words) - w - 1])"
proof (induction words "Num w" i phrases rule: window_loop.induct)
  case (1 words i phrases)
  show ?case
  proof (cases "i < int (length words) - w")
    case True
    then have "[i..int (length words) - w - 1] = i # [i + 1..int (length words) - w - 1]"
      by (simp add: upto_rec1)
    with True 1 show ?thesis
      by (subst window_loop.simps) simp
  next
    case False
    then show ?thesis
      by (subst window_loop.simps) simp
  qed
qed

lemma window_loop_examined:
  "window_loop words windowSize 0 phrases = foldl keep_phrase phrases (examined words windowSize)"
  by (cases windowSize) (simp_all add: examined_def window_loop_NaN window_loop_fold)

lemma results_loop_fold:
  "results_loop rs windowSize phrases =
     foldl keep_phrase phrases (concat (map (result_windows windowSize) rs))"
  by (induction rs arbitrary: phrases)
     (simp_all add: result_windows_def window_loop_examined split: option.splits)

subsection \<open>The set of phrases\<close>

lemma foldl_keep_phrase_filter:
  "foldl keep_phrase acc xs = foldl set_add acc (filter in_range xs)"
  by (induction xs arbitrary: acc) (simp_all add: keep_phrase_def in_range_def)

lemma set_foldl_set_add: "set (foldl set_add acc xs) = set acc \<union> set xs"
  by (induction xs arbitrary: acc) (auto simp: set_add_def)

lemma foldl_set_add_first_occurrences:
  "foldl set_add [] xs = first_occurrences xs"
proof (induction xs rule: rev_induct)
  case Nil
  show ?case by (simp add: first_occurrences_def)
next
  case (snoc x xs)
  have "set (first_occurrences xs) = set xs"
    by (simp add: first_occurrences_def)
  with snoc show ?case
    by (simp add: set_add_def) (simp add: first_occurrences_def)
qed

lemma results_loop_first_occurrences:
  "results_loop rs windowSize [] =
     first_occurrences (filter in_range (concat (map (result_windows windowSize) rs)))"
  by (simp add: results_loop_fold foldl_keep_phrase_filter foldl_set_add_first_occurrences)

lemma distinct_first_occurrences: "distinct (first_occurrences xs)"
  by (simp add: first_occurrences_def)

lemma set_first_occurrences: "set (first_occurrences xs) = set xs"
  by (simp add: first_occurrences_def)

text \<open>
  C8. For every list of results and every window size (\<open>NaN\<close> included),
  \<open>extractKeyPhrases\<close> returns at most 5 phrases, pairwise distinct, each of length
  strictly between 30 and 150, in discovery order: they are the first five of the
  windows joined by the loops, over the results in order, that pass the length test,
  each at its first occurrence.
\<close>

theorem extractKeyPhrases_at_most_five_distinct_in_range:
  "length (extractKeyPhrases rs windowSize) \<le> 5 \<and>
   distinct (extractKeyPhrases rs windowSize) \<and>
   (\<forall>p \<in> set (extractKeyPhrases rs windowSize). 30 < length p \<and> length p < 150) \<and>
   extractKeyPhrases rs windowSize =
     take 5 (first_occurrences (filter in_range (concat (map (result_windows windowSize) rs))))"
proof -
  let ?all = "first_occurrences (filter in_range (concat (map (result_windows windowSize) rs)))"
  have eq: "extractKeyPhrases rs windowSize = take 5 ?all"
    by (simp add: extractKeyPhrases_def js_slice_take results_loop_first_occurrences)
  have "30 < length p \<and> length p < 150" if "p \<in> set (take 5 ?all)" for p
  proof -
    from that have "p \<in> set ?all" by (rule in_set_takeD)
    then have "in_range p" by (simp add: set_first_occurrences)
    then show ?thesis by (simp add: in_range_def)
  qed
  then have "\<forall>p \<in> set (take 5 ?all). 30 < length p \<and> length p < 150"
    by blast
  moreover have "distinct (take 5 ?all)"
    by (simp add: distinct_first_occurrences)
  moreover have "length (take 5 ?all) \<le> 5"
    by simp
  ultimately show ?thesis
    by (simp only: eq simp_thms)
qed


lemma window_positive:
  assumes "0 < w" "0 \<le> i"
  shows "window words (Num w) i = js_join (js '' '') (take (nat w) (drop (nat i) words))"
  using assms by (simp add: window_def js_slice_window)

lemma upto_map_int: "[0..int n - 1] = map int [0..<n]"
proof (induction n)
  case 0
  show ?case by simp
next
  case (Suc n)
  have "[0..int (Suc n) - 1] = [0..int (Suc n) - 1 - 1] @ [int (Suc n) - 1]"
    by (rule upto_rec2) simp
  with Suc show ?case by simp
qed

lemma examined_positive:
  assumes "0 < w"
  shows "examined words (Num w) =
           map (\<lambda>i. js_join (js '' '') (take (nat w) (drop i words))) [0..<length words - nat w]"
proof -
  have "[0..int (length words) - w - 1] = map int [0..<length words - nat w]"
  proof (cases "nat w \<le> length words")
    case True
    with assms have "int (length words) - w - 1 = int (length words - nat w) - 1"
      by linarith
    then show ?thesis by (simp only: upto_map_int)
  next
    case False
    with assms have "int (length words) - w - 1 < 0" "length words - nat w = 0"
      by linarith+
    then show ?thesis by simp
  qed
  then show ?thesis
    using assms by (simp add: examined_def window_positive comp_def)
qed

lemma results_loop_single:
  assumes "content r = Some c" "c \<noteq> []"
  shows "results_loop [r] windowSize phrases =
           foldl keep_phrase phrases (examined (split_ws c) windowSize)"
  using assms by (simp add: window_loop_examined)

lemma filter_upt_window:
  assumes "0 < n"
  shows "filter (\<lambda>i. i + n \<le> L) [0..<L] = [0..<Suc L - n]"
proof -
  have split: "[0..<L] = [0..<Suc L - n] @ [Suc L - n..<L]"
  proof -
    from assms have "Suc L - n \<le> L" by simp
    then have "L = (Suc L - n) + (L - (Suc L - n))" by simp
    then have "[0..<L] = [0..<(Suc L - n) + (L - (Suc L - n))]" by simp
    also have "\<dots> = [0..<Suc L - n] @ [Suc L - n..<(Suc L - n) + (L - (Suc L - n))]"
      by (rule upt_add_eq_append) simp
    finally show ?thesis using \<open>Suc L - n \<le> L\<close> by simp
  qed
  have "filter (\<lambda>i. i + n \<le> L) [0..<Suc L - n] = [0..<Suc L - n]"
    by (rule filter_True) auto
  moreover have "filter (\<lambda>i. i + n \<le> L) [Suc L - n..<L] = []"
    by (rule filter_False) auto
  ultimately show ?thesis
    by (subst split) simp
qed

lemma concat_map_if:
  "concat (map (\<lambda>i. if P i then [f i] else []) xs) = map f (filter P xs)"
  by (induction xs) simp_all

lemma spec_windows_map:
  assumes "0 < n"
  shows "spec_windows n xs = map (\<lambda>i. take n (drop i xs)) [0..<Suc (length xs) - n]"
proof -
  have "spec_windows n xs =
      map (\<lambda>i. take n (drop i xs)) (filter (\<lambda>i. i + n \<le> length xs) [0..<length xs])"
    unfolding spec_windows_def by (rule concat_map_if)
  then show ?thesis
    by (simp only: filter_upt_window [OF assms])
qed

lemma butlast_spec_windows:
  assumes "0 < n"
  shows "butlast (spec_windows n xs) = map (\<lambda>i. take n (drop i xs)) [0..<length xs - n]"
proof (cases "n \<le> length xs")
  case True
  then have "Suc (length xs) - n = Suc (length xs - n)" by simp
  then have "spec_windows n xs =
      map (\<lambda>i. take n (drop i xs)) [0..<length xs - n] @ [take n (drop (length xs - n) xs)]"
    by (simp add: spec_windows_map [OF assms])
  then show ?thesis
    by (simp only: butlast_snoc)
next
  case False
  then show ?thesis
    by (simp add: spec_windows_map [OF assms])
qed

text \<open>
  C4, as the loop has it. For a result with non-empty content and a positive window
  size \<open>w\<close>, the content is split at white space and the candidates put to the length
  test are, in order, the runs of \<open>w\<close> tokens joined with single spaces that start at
  the positions \<open>i\<close> with \<open>i < count - w\<close>, each of exactly \<open>w\<close> tokens:
  all the windows of \<open>w\<close> tokens but the last, the one that starts at
  \<open>count - w\<close>. When \<open>w\<close> is the token count or more, the result adds no phrase.
\<close>

theorem examined_windows_stop_before_last:
  assumes "content r = Some c" and "c \<noteq> []" and "0 < w"
  shows "results_loop [r] (Num w) phrases =
           foldl keep_phrase phrases
             (map (\<lambda>i. js_join (js '' '') (take (nat w) (drop i (split_ws c))))
                  [0..<length (split_ws c) - nat w]) \<and>
         map (\<lambda>i. take (nat w) (drop i (split_ws c))) [0..<length (split_ws c) - nat w] =
           butlast (spec_windows (nat w) (split_ws c)) \<and>
         (\<forall>i < length (split_ws c) - nat w. length (take (nat w) (drop i (split_ws c))) = nat w) \<and>
         (int (length (split_ws c)) \<le> w \<longrightarrow> results_loop [r] (Num w) phrases = phrases)"
proof -
  have "results_loop [r] (Num w) phrases =
          foldl keep_phrase phrases
            (map (\<lambda>i. js_join (js '' '') (take (nat w) (drop i (split_ws c))))
                 [0..<length (split_ws c) - nat w])"
    by (simp only: results_loop_single [OF assms(1,2)] examined_positive [OF assms(3)])
  moreover have "results_loop [r] (Num w) phrases = phrases" if "int (length (split_ws c)) \<le> w"
  proof -
    from that have "length (split_ws c) - nat w = 0" by linarith
    then show ?thesis
      by (simp add: results_loop_single [OF assms(1,2)] examined_positive [OF assms(3)]
            del: results_loop.simps)
  qed
  moreover have "length (take (nat w) (drop i (split_ws c))) = nat w"
    if "i < length (split_ws c) - nat w" for i
    using that by simp
  moreover have "map (\<lambda>i. take (nat w) (drop i (split_ws c))) [0..<length (split_ws c) - nat w] =
      butlast (spec_windows (nat w) (split_ws c))"
    using assms(3) by (simp add: butlast_spec_windows)
  ultimately show ?thesis by blast
qed

lemma is_space_examples:
  "is_space 0x20" "\<not> is_space 0x61" "\<not> is_space 0x62" "\<not> is_space 0x63"
  by (simp_all add: is_space_def)

lemma split_three_words:
  "split_ws three_words =
     [js ''aaaaaaaaaaaaaaaaaaaa'', js ''bbbbbbbbbbbbbbbbbbbb'', js ''cccccccccccccccccccc'']"
  by (simp add: three_words_def js_def split_ws.simps is_space_examples)

lemma three_words_not_empty: "three_words \<noteq> []"
  by (simp add: three_words_def js_def)

theorem examined_windows_stop_before_last_witness:
  "results_loop [page_result three_words] (Num 2) [] =
     [js ''aaaaaaaaaaaaaaaaaaaa bbbbbbbbbbbbbbbbbbbb'']"
  using examined_windows_stop_before_last [of "page_result three_words" three_words 2 "[]"]
  by (simp add: page_result_def three_words_not_empty split_three_words
        keep_phrase_def set_add_def js_def)

text \<open>
  C4 as stated fails: of the two windows of 2 tokens in a content of 3 tokens the loop
  joins the first only, so its phrases differ from those of the windows at every start
  position.
\<close>

theorem last_window_not_examined:
  "results_loop [page_result three_words] (Num 2) [] \<noteq>
     foldl keep_phrase [] (map (js_join (js '' '')) (spec_windows 2 (split_ws three_words)))"
  by (simp add: page_result_def three_words_not_empty split_three_words window_loop_examined
        examined_positive spec_windows_def keep_phrase_def set_add_def js_def)


theorem extractKeyPhrases_at_most_five_distinct_in_range_witness:
  "extractKeyPhrases [page_result three_words, page_result three_words] (Num 2) =
     [js ''aaaaaaaaaaaaaaaaaaaa bbbbbbbbbbbbbbbbbbbb''] \<and>
   length (js ''aaaaaaaaaaaaaaaaaaaa bbbbbbbbbbbbbbbbbbbb'') = 41"
  using extractKeyPhrases_at_most_five_distinct_in_range
          [of "[page_result three_words, page_result three_words]" "Num 2"]
  by (simp add: result_windows_def page_result_def three_words_not_empty split_three_words
        examined_positive in_range_def first_occurrences_def js_def)

subsection \<open>Window sizes that are not positive\<close>

lemma window_empty:
  assumes "0 \<le> i" "w \<le> 0" "w = 0 \<or> int (length words) + w \<le> 0"
  shows "window words (Num w) i = []"
  using js_slice_empty [OF assms] by (simp add: window_def)

lemma keep_phrase_empty: "keep_phrase phrases [] = phrases"
  by (simp add: keep_phrase_def)

lemma foldl_keep_phrase_empty:
  "\<forall>p \<in> set ps. p = [] \<Longrightarrow> foldl keep_phrase phrases ps = phrases"
  by (induction ps arbitrary: phrases) (simp_all add: keep_phrase_empty)

lemma examined_nonpositive:
  assumes "w \<le> 0" "w = 0 \<or> int (length words) + w \<le> 0"
  shows "foldl keep_phrase phrases (examined words (Num w)) = phrases"
proof (rule foldl_keep_phrase_empty)
  show "\<forall>p \<in> set (examined words (Num w)). p = []"
    using assms by (auto simp: examined_def window_empty)
qed

text \<open>
  C10, as the loop has it. With exact integers the loops end for every window size
  (\<open>extractKeyPhrases\<close> is a total function). For a window size of 0, and for a
  negative window size (of magnitude at most \<open>2 ^ 52\<close>, where the arithmetic of the
  tool is exact) whose magnitude is at least the token count of every result with
  content, every joined window is empty and the result is the empty list.
\<close>

theorem extractKeyPhrases_nonpositive_window:
  assumes "- (2 ^ 52) \<le> w" and "w \<le> 0"
    and "\<forall>r \<in> set rs. \<forall>c. content r = Some c \<longrightarrow> w = 0 \<or> int (length (split_ws c)) + w \<le> 0"
  shows "extractKeyPhrases rs (Num w) = []"
proof -
  have "results_loop rs (Num w) phrases = phrases" for phrases
    using assms(3)
  proof (induction rs arbitrary: phrases)
    case Nil
    show ?case by simp
  next
    case (Cons r rs)
    then have rest: "results_loop rs (Num w) ps = ps" for ps by simp
    show ?case
    proof (cases "content r")
      case None
      then show ?thesis by (simp add: rest)
    next
      case (Some c)
      with Cons.prems have "w = 0 \<or> int (length (split_ws c)) + w \<le> 0" by simp
      then have "window_loop (split_ws c) (Num w) 0 phrases = phrases"
        using assms(2) by (simp only: window_loop_examined examined_nonpositive)
      with Some show ?thesis by (simp add: rest)
    qed
  qed
  then show ?thesis
    by (simp add: extractKeyPhrases_def js_slice_take)
qed

lemma split_long_word_then_b:
  "split_ws long_word_then_b = [js ''aaaaaaaaaaaaaaaaaaaaaaaaaaaaaaaaaaa'', js ''b'']"
  by (simp add: long_word_then_b_def js_def split_ws.simps is_space_examples)

lemma long_word_then_b_not_empty: "long_word_then_b \<noteq> []"
  by (simp add: long_word_then_b_def js_def)

theorem extractKeyPhrases_nonpositive_window_witness:
  "extractKeyPhrases [page_result long_word_then_b] (Num 0) = [] \<and>
   extractKeyPhrases [page_result long_word_then_b] (Num (- 2)) = []"
  using extractKeyPhrases_nonpositive_window [of 0 "[page_result long_word_then_b]"]
    extractKeyPhrases_nonpositive_window [of "- 2" "[page_result long_word_then_b]"]
  by (simp add: page_result_def split_long_word_then_b)

lemma examined_long_word_then_b:
  "examined (split_ws long_word_then_b) (Num (- 1)) =
     [js ''aaaaaaaaaaaaaaaaaaaaaaaaaaaaaaaaaaa'', [], []]"
  by (simp add: split_long_word_then_b examined_def upto_rec1 window_def js_slice_def
        slice_index_def)

text \<open>
  C10 as stated fails for a negative window size: \<open>words.slice(0, -1)\<close> counts its
  end from the end of the array, so with window size \<open>-1\<close> the window at 0 of a
  content of two tokens is its first token, here of 35 characters, and it is kept.
\<close>

theorem negative_window_yields_phrase:
  "extractKeyPhrases [page_result long_word_then_b] (Num (- 1)) =
     [js ''aaaaaaaaaaaaaaaaaaaaaaaaaaaaaaaaaaa'']"
  by (simp add: extractKeyPhrases_def js_slice_take page_result_def long_word_then_b_not_empty
        window_loop_examined examined_long_word_then_b keep_phrase_def set_add_def js_def)

subsection \<open>The summary\<close>

lemma js_join_Cons:
  "js_join sep (x # xs) = (if xs = [] then x else x @ sep @ js_join sep xs)"
  by (cases xs) simp_all

lemma sep_in_js_join:
  assumes "2 \<le> length xs"
  shows "set sep \<subseteq> set (js_join sep xs)"
proof -
  from assms obtain x y ys where "xs = x # y # ys"
    by (cases xs; cases "tl xs") auto
  then show ?thesis by auto
qed

lemma js_join_eq_avoiding:
  assumes "js_join sep xs = s" and "xs \<noteq> []" and "c \<in> set sep" and "c \<notin> set s"
  shows "xs = [s]"
proof (cases "2 \<le> length xs")
  case True
  with sep_in_js_join [of xs sep] assms show ?thesis by auto
next
  case False
  with assms(2) obtain x where "xs = [x]"
    by (cases xs; cases "tl xs") auto
  with assms(1) show ?thesis by simp
qed

lemma js_join_empty_iff:
  assumes "sep \<noteq> []"
  shows "js_join sep xs = [] \<longleftrightarrow> xs = [] \<or> xs = [[]]"
proof (cases "xs = []")
  case True
  then show ?thesis by simp
next
  case False
  from assms obtain c where c: "c \<in> set sep" by (cases sep) auto
  show ?thesis
  proof
    assume "js_join sep xs = []"
    with js_join_eq_avoiding [of sep xs "[]" c] False c show "xs = [] \<or> xs = [[]]" by simp
  next
    assume "xs = [] \<or> xs = [[]]"
    then show "js_join sep xs = []" by auto
  qed
qed

lemma no_summary_chars: "0x0A \<notin> set no_summary" "0x3E \<notin> set no_summary" "no_summary \<noteq> []"
  by (simp_all add: no_summary_def js_def)

lemma generateSearchSummary_lines:
  "generateSearchSummary rs =
     (if js_join [0x0A] (heading_lines rs) = [] then no_summary
      else js_join [0x0A] (heading_lines rs))"
  by (simp add: generateSearchSummary_def heading_lines_def Let_def)

lemma heading_line_empty_iff:
  assumes "has_headings r"
  shows "js_join (js '' > '') (the (headings r)) = [] \<longleftrightarrow> headings r = Some [[]]"
proof -
  from assms obtain hs where hs: "headings r = Some hs" "hs \<noteq> []"
    by (auto simp: has_headings_def split: option.splits)
  have "js '' > '' \<noteq> []" by (simp add: js_def)
  from js_join_empty_iff [OF this, of hs] hs show ?thesis by simp
qed

lemma heading_line_no_summary_iff:
  assumes "has_headings r"
  shows "js_join (js '' > '') (the (headings r)) = no_summary \<longleftrightarrow> headings r = Some [no_summary]"
proof -
  from assms obtain hs where hs: "headings r = Some hs" "hs \<noteq> []"
    by (auto simp: has_headings_def split: option.splits)
  have sep: "0x3E \<in> set (js '' > '')" by (simp add: js_def)
  show ?thesis
  proof
    assume "js_join (js '' > '') (the (headings r)) = no_summary"
    with hs have "js_join (js '' > '') hs = no_summary" by simp
    from js_join_eq_avoiding [OF this hs(2) sep no_summary_chars(2)] hs
    show "headings r = Some [no_summary]" by simp
  next
    assume "headings r = Some [no_summary]"
    then show "js_join (js '' > '') (the (headings r)) = no_summary" by simp
  qed
qed

text \<open>
  C5, as the code has it. \<open>generateSearchSummary\<close> returns the fallback text exactly
  when no result has a non-empty headings sequence, or exactly one has and its headings
  are the single empty string or the single string equal to the fallback text;
  otherwise it returns the newline-join of the per-result \<open>" > "\<close>-joins over the
  results with a non-empty headings sequence. In particular it returns the fallback
  text when no result has headings.
\<close>

theorem generateSearchSummary_fallback:
  "(generateSearchSummary rs = no_summary \<longleftrightarrow>
      filter has_headings rs = [] \<or>
      (\<exists>r. filter has_headings rs = [r] \<and>
           (headings r = Some [[]] \<or> headings r = Some [no_summary]))) \<and>
   (generateSearchSummary rs \<noteq> no_summary \<longrightarrow>
      generateSearchSummary rs =
        js_join [0x0A]
          (map (\<lambda>r. js_join (js '' > '') (the (headings r))) (filter has_headings rs))) \<and>
   ((\<forall>r \<in> set rs. \<not> has_headings r) \<longrightarrow> generateSearchSummary rs = no_summary)"
proof (intro conjI)
  let ?S = "js_join [0x0A] (heading_lines rs)"
  have empty_iff: "?S = [] \<longleftrightarrow>
      filter has_headings rs = [] \<or> (\<exists>r. filter has_headings rs = [r] \<and> headings r = Some [[]])"
  proof -
    have "?S = [] \<longleftrightarrow> heading_lines rs = [] \<or> heading_lines rs = [[]]"
      by (rule js_join_empty_iff) simp
    also have "heading_lines rs = [] \<longleftrightarrow> filter has_headings rs = []"
      by (simp add: heading_lines_def)
    also have "heading_lines rs = [[]] \<longleftrightarrow>
        (\<exists>r. filter has_headings rs = [r] \<and> headings r = Some [[]])"
    proof
      assume "heading_lines rs = [[]]"
      then obtain r where r: "filter has_headings rs = [r]"
          "js_join (js '' > '') (the (headings r)) = []"
        by (auto simp: heading_lines_def map_eq_Cons_conv)
      from r(1) have "r \<in> set (filter has_headings rs)" by simp
      then have "has_headings r" by simp
      with r heading_line_empty_iff show "\<exists>r. filter has_headings rs = [r] \<and> headings r = Some [[]]"
        by blast
    next
      assume "\<exists>r. filter has_headings rs = [r] \<and> headings r = Some [[]]"
      then show "heading_lines rs = [[]]"
        by (auto simp: heading_lines_def)
    qed
    finally show ?thesis .
  qed
  have fallback_iff: "?S = no_summary \<longleftrightarrow>
      (\<exists>r. filter has_headings rs = [r] \<and> headings r = Some [no_summary])"
  proof
    assume S: "?S = no_summary"
    then have "heading_lines rs \<noteq> []" using no_summary_chars(3) by auto
    from js_join_eq_avoiding [OF S this _ no_summary_chars(1)]
    have "heading_lines rs = [no_summary]" by simp
    then obtain r where r: "filter has_headings rs = [r]"
        "js_join (js '' > '') (the (headings r)) = no_summary"
      by (auto simp: heading_lines_def map_eq_Cons_conv)
    from r(1) have "r \<in> set (filter has_headings rs)" by simp
    then have "has_headings r" by simp
    with r heading_line_no_summary_iff
    show "\<exists>r. filter has_headings rs = [r] \<and> headings r = Some [no_summary]"
      by blast
  next
    assume "\<exists>r. filter has_headings rs = [r] \<and> headings r = Some [no_summary]"
    then show "?S = no_summary"
      by (auto simp: heading_lines_def)
  qed
  show "generateSearchSummary rs = no_summary \<longleftrightarrow>
      filter has_headings rs = [] \<or>
      (\<exists>r. filter has_headings rs = [r] \<and>
           (headings r = Some [[]] \<or> headings r = Some [no_summary]))"
    using empty_iff fallback_iff
    by (auto simp: generateSearchSummary_lines)
  show "generateSearchSummary rs \<noteq> no_summary \<longrightarrow>
      generateSearchSummary rs =
        js_join [0x0A]
          (map (\<lambda>r. js_join (js '' > '') (the (headings r))) (filter has_headings rs))"
    by (simp add: generateSearchSummary_lines heading_lines_def)
  show "(\<forall>r \<in> set rs. \<not> has_headings r) \<longrightarrow> generateSearchSummary rs = no_summary"
    by (auto simp: generateSearchSummary_lines heading_lines_def filter_empty_conv)
qed

theorem generateSearchSummary_fallback_witness:
  "generateSearchSummary [headed_result [js ''A'', js ''B''], headed_result [], headed_result [js ''C'']]
     = js ''A > B'' @ [0x0A] @ js ''C'' \<and>
   generateSearchSummary [headed_result []] = no_summary"
  using generateSearchSummary_fallback
      [of "[headed_result [js ''A'', js ''B''], headed_result [], headed_result [js ''C'']]"]
    generateSearchSummary_fallback [of "[headed_result []]"]
  by (simp add: headed_result_def has_headings_def no_summary_def js_def)

text \<open>
  C5 as stated fails: a result whose only heading reads as the fallback text has a
  non-empty headings sequence, and the fallback text is returned.
\<close>

theorem fallback_returned_despite_headings:
  "has_headings (headed_result [no_summary]) \<and>
   generateSearchSummary [headed_result [no_summary]] = no_summary"
  by (simp add: headed_result_def has_headings_def generateSearchSummary_def)

section \<open>Properties of the orchestrator\<close>

subsection \<open>The listing loop\<close>

lemma fst_visit: "fst (visit i ti u sn d) = fst (visit 0 ti u sn d)"
  by (cases d) simp_all

lemma entry_step_None: "entry_step i entry = None \<longleftrightarrow> entry = Detached"
  by (cases "(i, entry)" rule: entry_step.cases) simp_all

lemma entry_step_Some:
  "entry \<noteq> Detached \<Longrightarrow> entry_step i entry = Some (pushed entry, entry_events i entry)"
  by (cases "(i, entry)" rule: entry_step.cases)
     (simp_all add: pushed_def entry_events_def fst_visit [of i] prod_eq_iff case_prod_unfold)

lemma loop_condition:
  "js_less (Num (int i)) (js_min (Num (int (length es))) (Num m)) \<longleftrightarrow>
     i < min (length es) (nat m)"
  by auto

lemma listing_loop_NaN: "listing_loop es NaN i (rs, tr) = Inr (rs, tr)"
  by (simp add: listing_loop.simps)

lemma listing_loop_ok:
  assumes "\<forall>j. i \<le> j \<and> j < min (length es) (nat m) \<longrightarrow> es ! j \<noteq> Detached"
  shows "listing_loop es (Num m) i (rs, tr) =
           Inr (rs @ concat (map (\<lambda>j. pushed (es ! j)) [i..<min (length es) (nat m)]),
                tr @ concat (map (\<lambda>j. entry_events j (es ! j)) [i..<min (length es) (nat m)]))"
  using assms
proof (induction es "Num m" i "(rs, tr)" arbitrary: rs tr rule: listing_loop.induct)
  case (1 es i rs tr)
  let ?k = "min (length es) (nat m)"
  show ?case
  proof (cases "i < ?k")
    case True
    with 1(2) have nd: "es ! i \<noteq> Detached" by simp
    have step: "entry_step i (es ! i) = Some (pushed (es ! i), entry_events i (es ! i))"
      using nd by (rule entry_step_Some)
    have cond: "js_less (Num (int i)) (js_min (Num (int (length es))) (Num m))"
      using True by (simp only: loop_condition)
    have rest: "\<forall>j. Suc i \<le> j \<and> j < ?k \<longrightarrow> es ! j \<noteq> Detached"
      using 1(2) by simp
    have "listing_loop es (Num m) i (rs, tr) =
            listing_loop es (Num m) (Suc i) (rs @ pushed (es ! i), tr @ entry_events i (es ! i))"
      using cond step by (subst listing_loop.simps) simp
    also have "\<dots> =
        Inr ((rs @ pushed (es ! i)) @ concat (map (\<lambda>j. pushed (es ! j)) [Suc i..<?k]),
             (tr @ entry_events i (es ! i)) @ concat (map (\<lambda>j. entry_events j (es ! j)) [Suc i..<?k]))"
      using rest by (intro 1(1) [OF cond step]) auto
    also have "[i..<?k] = i # [Suc i..<?k]"
      using True by (rule upt_conv_Cons)
    then have "Inr ((rs @ pushed (es ! i)) @ concat (map (\<lambda>j. pushed (es ! j)) [Suc i..<?k]),
             (tr @ entry_events i (es ! i)) @ concat (map (\<lambda>j. entry_events j (es ! j)) [Suc i..<?k]))
        = (Inr (rs @ concat (map (\<lambda>j. pushed (es ! j)) [i..<?k]),
              tr @ concat (map (\<lambda>j. entry_events j (es ! j)) [i..<?k]))
            :: event list + WebSearchResult list \<times> event list)"
      by simp
    finally show ?thesis .
  next
    case False
    then have ncond: "\<not> js_less (Num (int i)) (js_min (Num (int (length es))) (Num m))"
      by (simp only: loop_condition not_False_eq_True)
    from False have "?k \<le> i" by (simp only: not_less)
    then have "[i..<?k] = []" by simp
    then show ?thesis
      by (subst listing_loop.simps) (simp only: ncond if_False, simp)
  qed
qed

lemma listing_loop_abort:
  assumes "\<exists>j. i \<le> j \<and> j < min (length es) (nat m) \<and> es ! j = Detached"
  shows "\<exists>tr'. listing_loop es (Num m) i (rs, tr) = Inl tr'"
  using assms
proof (induction es "Num m" i "(rs, tr)" arbitrary: rs tr rule: listing_loop.induct)
  case (1 es i rs tr)
  let ?k = "min (length es) (nat m)"
  from 1(2) obtain j where j: "i \<le> j" "j < ?k" "es ! j = Detached" by blast
  then have "i < ?k" by linarith
  then have cond: "js_less (Num (int i)) (js_min (Num (int (length es))) (Num m))"
    by (simp only: loop_condition)
  show ?case
  proof (cases "es ! i = Detached")
    case True
    with cond show ?thesis
      by (subst listing_loop.simps) simp
  next
    case False
    then have step: "entry_step i (es ! i) = Some (pushed (es ! i), entry_events i (es ! i))"
      by (rule entry_step_Some)
    from False j have "Suc i \<le> j" by (cases "i = j") auto
    with j have "\<exists>j. Suc i \<le> j \<and> j < ?k \<and> es ! j = Detached" by blast
    then have "\<exists>tr'. listing_loop es (Num m) (Suc i) (rs @ pushed (es ! i), tr @ entry_events i (es ! i)) = Inl tr'"
      by (intro 1(1) [OF cond step]) auto
    with cond step show ?thesis
      by (subst listing_loop.simps) simp
  qed
qed

lemma map_nth_take:
  "k \<le> length xs \<Longrightarrow> map (\<lambda>j. f (xs ! j)) [0..<k] = map f (take k xs)"
  by (induction k) (simp_all add: take_Suc_conv_app_nth)

lemma examined_entries_Num:
  "examined_entries es (Num m) = take (min (length es) (nat m)) es"
  by (simp add: examined_entries_def min_def)

lemma Detached_examined_iff:
  "Detached \<in> set (examined_entries es (Num m)) \<longleftrightarrow>
     (\<exists>j. 0 \<le> j \<and> j < min (length es) (nat m) \<and> es ! j = Detached)"
  by (auto simp: examined_entries_Num in_set_conv_nth)

lemma listing_loop_results:
  "listing_loop es maxResults 0 (rs, tr) = Inr (rs', tr') \<Longrightarrow>
     Detached \<notin> set (examined_entries es maxResults) \<and>
     rs' = rs @ concat (map pushed (examined_entries es maxResults))"
proof (cases maxResults)
  case NaN
  assume "listing_loop es maxResults 0 (rs, tr) = Inr (rs', tr')"
  with NaN show ?thesis by (simp add: listing_loop_NaN examined_entries_def)
next
  case (Num m)
  assume run: "listing_loop es maxResults 0 (rs, tr) = Inr (rs', tr')"
  let ?k = "min (length es) (nat m)"
  have nd: "\<not> (\<exists>j. 0 \<le> j \<and> j < ?k \<and> es ! j = Detached)"
  proof
    assume "\<exists>j. 0 \<le> j \<and> j < ?k \<and> es ! j = Detached"
    from listing_loop_abort [OF this, of rs tr] run Num show False by auto
  qed
  then have "\<forall>j. 0 \<le> j \<and> j < ?k \<longrightarrow> es ! j \<noteq> Detached" by blast
  from listing_loop_ok [OF this, of rs tr] run Num
  have "rs' = rs @ concat (map (\<lambda>j. pushed (es ! j)) [0..<?k])" by simp
  also have "map (\<lambda>j. pushed (es ! j)) [0..<?k] = map pushed (take ?k es)"
    by (rule map_nth_take) simp
  finally have "rs' = rs @ concat (map pushed (examined_entries es maxResults))"
    by (simp only: Num examined_entries_Num)
  with nd Num show ?thesis by (simp only: Detached_examined_iff) simp
qed

lemma listing_loop_total:
  "Detached \<notin> set (examined_entries es maxResults) \<Longrightarrow>
     \<exists>tr'. listing_loop es maxResults 0 (rs, tr) =
             Inr (rs @ concat (map pushed (examined_entries es maxResults)), tr')"
proof (cases maxResults)
  case NaN
  then show ?thesis by (simp add: listing_loop_NaN examined_entries_def)
next
  case (Num m)
  assume "Detached \<notin> set (examined_entries es maxResults)"
  let ?k = "min (length es) (nat m)"
  from \<open>Detached \<notin> set (examined_entries es maxResults)\<close> Num
  have "\<forall>j. 0 \<le> j \<and> j < ?k \<longrightarrow> es ! j \<noteq> Detached"
    by (simp only: Detached_examined_iff) blast
  from listing_loop_ok [OF this, of rs tr]
  have "listing_loop es (Num m) 0 (rs, tr) =
      Inr (rs @ concat (map (\<lambda>j. pushed (es ! j)) [0..<?k]),
           tr @ concat (map (\<lambda>j. entry_events j (es ! j)) [0..<?k]))" .
  moreover have "map (\<lambda>j. pushed (es ! j)) [0..<?k] = map pushed (take ?k es)"
    by (rule map_nth_take) simp
  ultimately show ?thesis
    using Num by (simp only: examined_entries_Num) blast
qed

subsection \<open>The run\<close>

lemma stringify_processed: "stringify (processed_value p) = Some (document_of p)"
  by (simp add: document_of_def processed_value_def)

lemma finish_eq:
  "finish e q d ws dir rs tr =
     (if write_ok e
      then (Completed (processedResults_of e q d ws rs) (resultsPath_of e dir)
              (formatSearchResults (processedResults_of e q d ws rs) (resultsPath_of e dir)),
            tr @ [WriteFile (resultsPath_of e dir) (document_of (processedResults_of e q d ws rs)),
                  PushToolResult
                    (formatSearchResults (processedResults_of e q d ws rs) (resultsPath_of e dir)),
                  CloseBrowser])
      else failed True tr)"
  by (simp add: finish_def stringify_processed Let_def)

lemma fst_failed: "fst (failed b tr) = Failed"
  by (simp add: failed_def)

lemma browse_outcome: "fst (browse e q d m ws dir tr) \<noteq> Declined"
  by (auto simp: browse_def finish_eq failed_def Let_def split: search.splits sum.splits)

lemma webSearchTool_completed_iff:
  "webSearchTool e ps = (Completed p path out, tr) \<longleftrightarrow>
     param_query e ps \<noteq> [] \<and> mkdir_ok e \<and> approve e \<and> launch_ok e \<and> write_ok e \<and>
     (\<exists>es rs tr'. search e = Listing es \<and>
        listing_loop es (param_maxResults e ps) 0 ([], events_before_listing e ps) = Inr (rs, tr') \<and>
        p = processed_of e ps rs \<and>
        path = resultsPath_of e (resultsDir_of e ps) \<and>
        out = formatSearchResults p path \<and>
        tr = tr' @ [WriteFile path (document_of p), PushToolResult out, CloseBrowser])"
  by (auto simp: webSearchTool_def browse_def finish_eq failed_def Let_def processed_of_def
        events_before_listing_def split: search.splits sum.splits)

subsection \<open>Example runs\<close>

lemma example_env_fields:
  "mkdir_ok (example_env es)" "approve (example_env es)" "launch_ok (example_env es)"
  "write_ok (example_env es)" "search (example_env es) = Listing es"
  by (simp_all add: example_env_def)

lemma example_params_values:
  "param_query (example_env es) (example_params n) = js ''foo''"
  "param_query (example_env es\<lparr>approve := False\<rparr>) (example_params n) = js ''foo''"
  "param_domain (example_env es) (example_params n) = None"
  "param_maxResults (example_env es) (example_params ''1'') = Num 1"
  "param_maxResults (example_env es) (example_params ''2'') = Num 2"
  "resultsDir_of (example_env es\<lparr>approve := False\<rparr>) (example_params n) = js ''/w/out''"
  by (simp_all add: param_query_def param_domain_def param_maxResults_def resultsDir_of_def
        param_chunkDir_def example_env_def example_params_def truthy_def text_or_empty_def js_def)

lemma js_foo_not_empty: "js ''foo'' \<noteq> []"
  by (simp add: js_def)

subsection \<open>Declined approval\<close>

text \<open>
  C1, as the code has it. The run is declined exactly when the query is there, the
  output directory could be made and the approval gate says no; the directory is made
  before approval is asked, so a declined run has made the output directory and asked
  for approval, and has done nothing else: no file is written, no browser launched, no
  page opened or fetched, no result pushed.
\<close>

theorem declined_after_mkdir_only:
  "(fst (webSearchTool e ps) = Declined \<longleftrightarrow>
      param_query e ps \<noteq> [] \<and> mkdir_ok e \<and> \<not> approve e) \<and>
   (fst (webSearchTool e ps) = Declined \<longrightarrow>
      snd (webSearchTool e ps) = [Mkdir (resultsDir_of e ps), AskApproval (completeMessage e ps)])"
  using browse_outcome [of e "param_query e ps" "param_domain e ps" "param_maxResults e ps"
      "param_slidingWindowSize e ps" "resultsDir_of e ps"
      "[Mkdir (resultsDir_of e ps), AskApproval (completeMessage e ps)]"]
  by (simp add: webSearchTool_def fst_failed)

theorem declined_after_mkdir_only_witness:
  "fst (webSearchTool (example_env []\<lparr>approve := False\<rparr>) (example_params ''2'')) = Declined \<and>
   snd (webSearchTool (example_env []\<lparr>approve := False\<rparr>) (example_params ''2'')) =
     [Mkdir (js ''/w/out''),
      AskApproval (completeMessage (example_env []\<lparr>approve := False\<rparr>) (example_params ''2''))]"
  using declined_after_mkdir_only [of "example_env []\<lparr>approve := False\<rparr>" "example_params ''2''"]
  by (simp add: example_params_values js_foo_not_empty) (simp add: example_env_def)

text \<open>
  C1 as stated fails: the declined run has created the output directory.
\<close>

theorem declined_run_has_made_directory:
  "fst (webSearchTool (example_env []\<lparr>approve := False\<rparr>) (example_params ''2'')) = Declined \<and>
   Mkdir (js ''/w/out'') \<in>
     set (snd (webSearchTool (example_env []\<lparr>approve := False\<rparr>) (example_params ''2'')))"
  by (simp add: webSearchTool_def example_params_values js_foo_not_empty)
     (simp add: example_env_def)

subsection \<open>What a completed run holds\<close>

lemma completed_results:
  assumes "webSearchTool e ps = (Completed p path out, tr)" and "search e = Listing es"
  shows "results p = concat (map pushed (examined_entries es (param_maxResults e ps)))"
proof -
  from assms obtain rs tr' where
    loop: "listing_loop es (param_maxResults e ps) 0 ([], events_before_listing e ps) = Inr (rs, tr')"
    and p: "p = processed_of e ps rs"
    by (auto simp: webSearchTool_completed_iff)
  from listing_loop_results [OF loop] p show ?thesis
    by (simp add: processed_of_def processedResults_of_def)
qed

lemma run_completes:
  assumes "param_query e ps \<noteq> []" "mkdir_ok e" "approve e" "launch_ok e" "write_ok e"
    and "search e = Listing es"
    and "Detached \<notin> set (examined_entries es (param_maxResults e ps))"
  shows "\<exists>p path out tr. webSearchTool e ps = (Completed p path out, tr) \<and>
           WriteFile path (document_of p) \<in> set tr \<and> PushToolResult out \<in> set tr"
proof -
  from listing_loop_total [OF assms(7), of "[]" "events_before_listing e ps"]
  obtain tr' where "listing_loop es (param_maxResults e ps) 0 ([], events_before_listing e ps) =
      Inr ([] @ concat (map pushed (examined_entries es (param_maxResults e ps))), tr')"
    by blast
  with assms(1-6) show ?thesis
    by (simp add: webSearchTool_completed_iff)
qed

lemma pushed_not_surviving: "\<not> surviving entry \<Longrightarrow> pushed entry = []"
  by (cases entry rule: surviving.cases) (simp_all add: pushed_def)

lemma pushed_visit_fails:
  "visit_fails d \<Longrightarrow>
     pushed (Entry (Some te) (Some se) d) =
       [\<lparr>title = text_or_empty (textContent te), url = href te,
         snippet = text_or_empty (textContent se),
         content = None, codeSnippets = None, headings = None\<rparr>]"
  by (cases d) (simp_all add: pushed_def partial_result_def)

lemma length_pushed: "\<not> close_fails entry \<Longrightarrow> length (pushed entry) \<le> 1"
proof (cases entry)
  case Detached
  then show ?thesis by (simp add: pushed_def)
next
  case (Entry t s d)
  assume "\<not> close_fails entry"
  with Entry show ?thesis
    by (cases t; cases s; cases d) (simp_all add: pushed_def)
qed

lemma pushed_fields:
  assumes "r \<in> set (pushed entry)"
  shows "\<exists>te se d. entry = Entry (Some te) (Some se) d \<and>
           title r = text_or_empty (textContent te) \<and> url r = href te \<and>
           snippet r = text_or_empty (textContent se)"
proof (cases entry)
  case Detached
  with assms show ?thesis by (simp add: pushed_def)
next
  case (Entry t s d)
  with assms show ?thesis
    by (cases t; cases s; cases d)
       (auto simp: pushed_def partial_result_def full_result_def split: if_splits)
qed

lemma length_concat_pushed:
  "\<forall>entry \<in> set es. \<not> close_fails entry \<Longrightarrow> length (concat (map pushed es)) \<le> length es"
proof (induction es)
  case Nil
  show ?case by simp
next
  case (Cons entry es)
  from Cons.prems have "\<not> close_fails entry" by simp
  then have "length (pushed entry) \<le> 1" by (rule length_pushed)
  moreover from Cons have "length (concat (map pushed es)) \<le> length es" by simp
  ultimately show ?case by simp
qed

subsection \<open>Skipped entries\<close>

text \<open>
  C2, as the loop has it. The loop looks at the first \<open>maxResults\<close> entries of the
  listing and at no other. An entry among them whose title or snippet element is
  missing pushes no result and does not end the run, but it has used one of the
  \<open>maxResults\<close> turns: the results of a completed run are those pushed by the
  first \<open>maxResults\<close> entries, and the run completes whenever the other steps
  succeed and no query on one of these entries rejects.
\<close>

theorem skipped_entries_use_up_maxResults:
  assumes "search e = Listing es"
  shows "(webSearchTool e ps = (Completed p path out, tr) \<longrightarrow>
            results p = concat (map pushed (examined_entries es (param_maxResults e ps)))) \<and>
         (\<forall>m. examined_entries es (Num m) = take (nat m) es) \<and>
         (\<forall>entry. \<not> surviving entry \<longrightarrow> pushed entry = []) \<and>
         (param_query e ps \<noteq> [] \<and> mkdir_ok e \<and> approve e \<and> launch_ok e \<and> write_ok e \<and>
          Detached \<notin> set (examined_entries es (param_maxResults e ps)) \<longrightarrow>
            completed (fst (webSearchTool e ps)))"
proof (intro conjI impI allI)
  assume "webSearchTool e ps = (Completed p path out, tr)"
  from completed_results [OF this assms]
  show "results p = concat (map pushed (examined_entries es (param_maxResults e ps)))" .
next
  fix m show "examined_entries es (Num m) = take (nat m) es"
    by (simp add: examined_entries_def)
next
  fix entry assume "\<not> surviving entry"
  then show "pushed entry = []" by (rule pushed_not_surviving)
next
  assume a: "param_query e ps \<noteq> [] \<and> mkdir_ok e \<and> approve e \<and> launch_ok e \<and> write_ok e \<and>
          Detached \<notin> set (examined_entries es (param_maxResults e ps))"
  then have "param_query e ps \<noteq> []" "mkdir_ok e" "approve e" "launch_ok e" "write_ok e"
    "Detached \<notin> set (examined_entries es (param_maxResults e ps))"
    by blast+
  from run_completes [OF this(1-5) assms this(6)]
  show "completed (fst (webSearchTool e ps))" by auto
qed

subsection \<open>The bound on the results and their listing fields\<close>

text \<open>
  C6, as the code has it. For a request with a positive \<open>maxResults\<close> and a
  completed run in which every content page that was read also closed, the results are
  at most \<open>maxResults\<close>, and the title, url and snippet of every result are the
  text of the title element, its \<open>href\<close> and the text of the snippet element of
  one of the first \<open>maxResults\<close> entries; these strings can be empty.
\<close>

theorem results_within_maxResults_from_listing:
  assumes "webSearchTool e ps = (Completed p path out, tr)"
    and "search e = Listing es"
    and "param_maxResults e ps = Num m" and "0 < m"
    and "\<forall>entry \<in> set (examined_entries es (Num m)). \<not> close_fails entry"
  shows "int (length (results p)) \<le> m \<and>
         (\<forall>r \<in> set (results p).
            \<exists>te se d. Entry (Some te) (Some se) d \<in> set (examined_entries es (Num m)) \<and>
              title r = text_or_empty (textContent te) \<and> url r = href te \<and>
              snippet r = text_or_empty (textContent se))"
proof
  have res: "results p = concat (map pushed (examined_entries es (Num m)))"
    using completed_results [OF assms(1,2)] assms(3) by simp
  have "length (results p) \<le> length (examined_entries es (Num m))"
    unfolding res using assms(5) by (rule length_concat_pushed)
  also have "\<dots> \<le> nat m"
    by (simp add: examined_entries_def)
  finally show "int (length (results p)) \<le> m"
    using assms(4) by linarith
  show "\<forall>r \<in> set (results p).
            \<exists>te se d. Entry (Some te) (Some se) d \<in> set (examined_entries es (Num m)) \<and>
              title r = text_or_empty (textContent te) \<and> url r = href te \<and>
              snippet r = text_or_empty (textContent se)"
  proof
    fix r assume "r \<in> set (results p)"
    then obtain entry where entry: "entry \<in> set (examined_entries es (Num m))" "r \<in> set (pushed entry)"
      unfolding res by auto
    from pushed_fields [OF entry(2)] entry(1)
    show "\<exists>te se d. Entry (Some te) (Some se) d \<in> set (examined_entries es (Num m)) \<and>
              title r = text_or_empty (textContent te) \<and> url r = href te \<and>
              snippet r = text_or_empty (textContent se)"
      by blast
  qed
qed

subsection \<open>A visit that fails\<close>

text \<open>
  C7. When the other steps of the run succeed, the run completes, with the artifact
  written and the report pushed, however the visits of the result pages go; the results
  are those pushed by the entries looked at, and an entry with title and snippet whose
  visit fails (the page cannot be opened, navigation fails, an evaluation fails) pushes
  exactly one result, with title, url and snippet from the listing and with content,
  codeSnippets and headings absent; that result is in the results of the run.
\<close>

theorem failed_visit_keeps_listing_fields:
  assumes "param_query e ps \<noteq> []" "mkdir_ok e" "approve e" "launch_ok e" "write_ok e"
    and "search e = Listing es"
    and "Detached \<notin> set (examined_entries es (param_maxResults e ps))"
  shows "\<exists>p path out tr.
           webSearchTool e ps = (Completed p path out, tr) \<and>
           WriteFile path (document_of p) \<in> set tr \<and> PushToolResult out \<in> set tr \<and>
           results p = concat (map pushed (examined_entries es (param_maxResults e ps))) \<and>
           (\<forall>te se d. visit_fails d \<longrightarrow>
              pushed (Entry (Some te) (Some se) d) =
                [\<lparr>title = text_or_empty (textContent te), url = href te,
                  snippet = text_or_empty (textContent se),
                  content = None, codeSnippets = None, headings = None\<rparr>]) \<and>
           (\<forall>te se d.
              Entry (Some te) (Some se) d \<in> set (examined_entries es (param_maxResults e ps)) \<and>
              visit_fails d \<longrightarrow>
                \<lparr>title = text_or_empty (textContent te), url = href te,
                 snippet = text_or_empty (textContent se),
                 content = None, codeSnippets = None, headings = None\<rparr> \<in> set (results p))"
proof -
  from run_completes [OF assms] obtain p path out tr where
    run: "webSearchTool e ps = (Completed p path out, tr)"
      "WriteFile path (document_of p) \<in> set tr" "PushToolResult out \<in> set tr"
    by blast
  from completed_results [OF run(1) assms(6)]
  have res: "results p = concat (map pushed (examined_entries es (param_maxResults e ps)))" .
  have "\<lparr>title = text_or_empty (textContent te), url = href te,
         snippet = text_or_empty (textContent se),
         content = None, codeSnippets = None, headings = None\<rparr> \<in> set (results p)"
    if "Entry (Some te) (Some se) d \<in> set (examined_entries es (param_maxResults e ps))"
      and "visit_fails d" for te se d
  proof -
    from that(2) have "pushed (Entry (Some te) (Some se) d) =
        [\<lparr>title = text_or_empty (textContent te), url = href te,
          snippet = text_or_empty (textContent se),
          content = None, codeSnippets = None, headings = None\<rparr>]"
      by (rule pushed_visit_fails)
    with that(1) show ?thesis
      unfolding res by force
  qed
  with run res pushed_visit_fails show ?thesis by blast
qed

subsection \<open>Runs over the example listings\<close>

lemma example_run_completes:
  assumes "Detached \<notin> set (examined_entries es (param_maxResults (example_env es) (example_params n)))"
  shows "\<exists>p path out tr.
           webSearchTool (example_env es) (example_params n) = (Completed p path out, tr)"
  using run_completes [of "example_env es" "example_params n" es] assms
  by (simp add: example_env_fields example_params_values js_foo_not_empty) blast

lemma examined_skip_listing: "examined_entries skip_listing (Num 2) = take 2 skip_listing"
  by (simp add: examined_entries_def)

lemma pushed_skip_listing:
  "concat (map pushed (take 2 skip_listing)) =
     [full_result (js ''t1'') (js ''u1'') (js ''s1'') example_document]"
  by (simp add: skip_listing_def pushed_def link_def text_or_empty_def)

theorem skipped_entries_use_up_maxResults_witness:
  "completed (fst (webSearchTool (example_env skip_listing) (example_params ''2''))) \<and>
   results_of (fst (webSearchTool (example_env skip_listing) (example_params ''2''))) =
     [full_result (js ''t1'') (js ''u1'') (js ''s1'') example_document]"
proof -
  have nd: "Detached \<notin> set (examined_entries skip_listing
      (param_maxResults (example_env skip_listing) (example_params ''2'')))"
    by (simp add: example_params_values examined_entries_def skip_listing_def)
  from example_run_completes [OF this] obtain p path out tr where
    run: "webSearchTool (example_env skip_listing) (example_params ''2'') = (Completed p path out, tr)"
    by blast
  from skipped_entries_use_up_maxResults
         [of "example_env skip_listing" skip_listing "example_params ''2''" p path out tr] run
  have "results p = concat (map pushed (take 2 skip_listing))"
    by (simp add: example_env_fields example_params_values examined_skip_listing)
  with run show ?thesis
    by (simp add: pushed_skip_listing)
qed

text \<open>
  C2 as stated fails: with \<open>maxResults = 2\<close> and a listing of three entries of
  which the first has no title element and the other two are whole, the run completes
  with one result, though the listing holds two surviving candidates.
\<close>

theorem two_survivors_one_result:
  "completed (fst (webSearchTool (example_env skip_listing) (example_params ''2''))) \<and>
   length (results_of (fst (webSearchTool (example_env skip_listing) (example_params ''2'')))) = 1 \<and>
   length (filter surviving skip_listing) = 2"
proof -
  have nd: "Detached \<notin> set (examined_entries skip_listing
      (param_maxResults (example_env skip_listing) (example_params ''2'')))"
    by (simp add: example_params_values examined_entries_def skip_listing_def)
  from example_run_completes [OF this] obtain p path out tr where
    run: "webSearchTool (example_env skip_listing) (example_params ''2'') = (Completed p path out, tr)"
    by blast
  from completed_results [OF run example_env_fields(5)]
  have "results p = concat (map pushed (take 2 skip_listing))"
    by (simp add: example_params_values examined_skip_listing)
  moreover have "length (filter surviving skip_listing) = 2"
    by (simp add: skip_listing_def)
  ultimately show ?thesis
    using run by (simp add: pushed_skip_listing)
qed


theorem results_within_maxResults_from_listing_witness:
  "completed (fst (webSearchTool (example_env skip_listing) (example_params ''2''))) \<and>
   int (length (results_of (fst (webSearchTool (example_env skip_listing) (example_params ''2''))))) \<le> 2"
proof -
  have nd: "Detached \<notin> set (examined_entries skip_listing
      (param_maxResults (example_env skip_listing) (example_params ''2'')))"
    by (simp add: example_params_values examined_entries_def skip_listing_def)
  from example_run_completes [OF this] obtain p path out tr where
    run: "webSearchTool (example_env skip_listing) (example_params ''2'') = (Completed p path out, tr)"
    by blast
  have closes: "\<forall>entry \<in> set (examined_entries skip_listing (Num 2)). \<not> close_fails entry"
    by (simp add: examined_entries_def skip_listing_def)
  from results_within_maxResults_from_listing
         [OF run example_env_fields(5) example_params_values(5) _ closes]
  have "int (length (results p)) \<le> 2" by simp
  with run show ?thesis by simp
qed

text \<open>
  C6 as stated fails: with \<open>maxResults = 1\<close> and one entry whose title element has
  no text and no \<open>href\<close> and whose page is read but fails to close, the run
  completes with two results for the entry, and their title and url are empty.
\<close>

theorem empty_title_and_two_results_for_one:
  "completed (fst (webSearchTool (example_env blank_listing) (example_params ''1''))) \<and>
   param_maxResults (example_env blank_listing) (example_params ''1'') = Num 1 \<and>
   results_of (fst (webSearchTool (example_env blank_listing) (example_params ''1''))) =
     [full_result [] [] (js ''s'') example_document, partial_result [] [] (js ''s'')] \<and>
   title (full_result [] [] (js ''s'') example_document) = [] \<and>
   url (full_result [] [] (js ''s'') example_document) = []"
proof -
  have nd: "Detached \<notin> set (examined_entries blank_listing
      (param_maxResults (example_env blank_listing) (example_params ''1'')))"
    by (simp add: example_params_values examined_entries_def blank_listing_def)
  from example_run_completes [OF this] obtain p path out tr where
    run: "webSearchTool (example_env blank_listing) (example_params ''1'') = (Completed p path out, tr)"
    by blast
  from completed_results [OF run example_env_fields(5)]
  have "results p = [full_result [] [] (js ''s'') example_document, partial_result [] [] (js ''s'')]"
    by (simp add: example_params_values examined_entries_def blank_listing_def pushed_def
          link_def text_or_empty_def)
  with run show ?thesis
    by (simp add: example_params_values full_result_def)
qed

theorem failed_visit_keeps_listing_fields_witness:
  "completed (fst (webSearchTool (example_env fail_listing) (example_params ''1''))) \<and>
   results_of (fst (webSearchTool (example_env fail_listing) (example_params ''1''))) =
     [\<lparr>title = js ''t'', url = js ''u'', snippet = js ''s'',
       content = None, codeSnippets = None, headings = None\<rparr>]"
proof -
  have nd: "Detached \<notin> set (examined_entries fail_listing
      (param_maxResults (example_env fail_listing) (example_params ''1'')))"
    by (simp add: example_params_values examined_entries_def fail_listing_def)
  from failed_visit_keeps_listing_fields
         [OF _ example_env_fields(1-4) example_env_fields(5) nd]
  obtain p path out tr where
    run: "webSearchTool (example_env fail_listing) (example_params ''1'') = (Completed p path out, tr)"
    and res: "results p = concat (map pushed (examined_entries fail_listing
        (param_maxResults (example_env fail_listing) (example_params ''1''))))"
    and part: "\<And>te se d. visit_fails d \<Longrightarrow>
        pushed (Entry (Some te) (Some se) d) =
          [\<lparr>title = text_or_empty (textContent te), url = href te,
            snippet = text_or_empty (textContent se),
            content = None, codeSnippets = None, headings = None\<rparr>]"
    by (auto simp: example_params_values js_foo_not_empty)
  from res have "results p = pushed (Entry (Some (link ''t'' ''u'')) (Some (link ''s'' [])) GotoFails)"
    by (simp add: example_params_values examined_entries_def fail_listing_def)
  also have "\<dots> =
      [\<lparr>title = js ''t'', url = js ''u'', snippet = js ''s'',
        content = None, codeSnippets = None, headings = None\<rparr>]"
    by (simp add: part link_def text_or_empty_def)
  finally show ?thesis using run by simp
qed

subsection \<open>Pages and the browser\<close>

lemma last_failed: "last (snd (failed True tr)) = CloseBrowser"
  by (simp add: failed_def)

lemma browser_closed_on_every_way_out:
  "LaunchBrowser \<in> set (snd (webSearchTool e ps)) \<Longrightarrow> last (snd (webSearchTool e ps)) = CloseBrowser"
  by (auto simp: webSearchTool_def browse_def finish_eq failed_def Let_def
        split: search.splits sum.splits if_splits)

text \<open>
  C3: the content page of a result is closed when its step is over, also when its
  navigation or extraction fails. The code does not do so: \<open>contentPage.close()\<close>
  stands at the end of the \<open>try\<close> block only, and the \<open>catch\<close> does not close
  the page. In the run over one entry whose page fails to load, content page 0 is opened
  and never closed; it goes only when the browser is closed at the end (lemma
  \<open>browser_closed_on_every_way_out\<close>: the browser, once launched, is closed last on
  every way out).
\<close>

theorem failed_visit_leaves_page_open:
  "completed (fst (webSearchTool (example_env fail_listing) (example_params ''1''))) \<and>
   OpenPage (ContentPage 0) \<in> set (snd (webSearchTool (example_env fail_listing) (example_params ''1''))) \<and>
   ClosePage (ContentPage 0) \<notin> set (snd (webSearchTool (example_env fail_listing) (example_params ''1'')))"
  by (simp add: webSearchTool_def browse_def finish_eq example_env_fields example_params_values
        js_foo_not_empty fail_listing_def listing_loop.simps link_def text_or_empty_def)

subsection \<open>The artifact read back\<close>

lemma stringify_strings: "stringify_elements (map Str xs) = map JStr xs"
  by (induction xs) simp_all

lemma parse_strings: "parse_elements (map JStr xs) = map Str xs"
  by (induction xs) simp_all

lemma result_round_trip:
  "\<exists>doc. stringify (result_value r) = Some doc \<and> parse doc = result_value r"
  by (cases "content r"; cases "codeSnippets r"; cases "headings r")
     (simp_all add: result_value_def optional_property_def strings_value_def
        stringify_strings parse_strings)

lemma results_round_trip:
  "parse_elements (stringify_elements (map result_value rs)) = map result_value rs"
proof (induction rs)
  case Nil
  show ?case by simp
next
  case (Cons r rs)
  from result_round_trip [of r] obtain doc where
    "stringify (result_value r) = Some doc" "parse doc = result_value r"
    by blast
  with Cons show ?case by simp
qed

text \<open>
  C9, as the code has it. The artifact read back is the in-memory value without its
  properties that hold \<open>undefined\<close>; no other part of the value is lost or changed.
  The only such property is \<open>domain\<close>, so with a domain given the artifact reads
  back as the in-memory value itself.
\<close>

theorem artifact_round_trip_without_undefined:
  "map_option parse (stringify (processed_value p)) =
     Some (defined_properties (processed_value p)) \<and>
   (domain p \<noteq> None \<longrightarrow> defined_properties (processed_value p) = processed_value p)"
  by (cases "domain p")
     (simp_all add: processed_value_def defined_properties_def strings_value_def
        stringify_strings parse_strings results_round_trip)

theorem artifact_round_trip_without_undefined_witness:
  "map_option parse
     (stringify (processed_value
        (processedResults_of (example_env []) (js ''foo'') (Some (js ''dev.to'')) (Num 100)
           [partial_result (js ''t'') (js ''u'') (js ''s'')]))) =
   Some (processed_value
        (processedResults_of (example_env []) (js ''foo'') (Some (js ''dev.to'')) (Num 100)
           [partial_result (js ''t'') (js ''u'') (js ''s'')]))"
proof -
  let ?p = "processedResults_of (example_env []) (js ''foo'') (Some (js ''dev.to'')) (Num 100)
           [partial_result (js ''t'') (js ''u'') (js ''s'')]"
  have "domain ?p \<noteq> None"
    by (simp add: processedResults_of_def)
  with artifact_round_trip_without_undefined [of ?p]
  have "map_option parse (stringify (processed_value ?p)) = Some (defined_properties (processed_value ?p))"
    and "defined_properties (processed_value ?p) = processed_value ?p"
    by blast+
  then show ?thesis by (simp only:)
qed

text \<open>
  C9 as stated fails for a search without a domain: the in-memory object has the
  property \<open>domain\<close>, holding \<open>undefined\<close>, and the object read back has no
  such property.
\<close>

theorem artifact_without_domain_differs:
  "map_option parse
     (stringify (processed_value (processedResults_of (example_env []) (js ''foo'') None (Num 100) []))) \<noteq>
   Some (processed_value (processedResults_of (example_env []) (js ''foo'') None (Num 100) []))"
  by (simp add: processedResults_of_def processed_value_def)

end
